theory Spec2Isabelle
  imports Complex_Main "HOL-Library.Sublist" "HOL-Library.AList"
begin

section \<open>JavaScript values used by the security module\<close>

text \<open>
  A JavaScript string is modelled as a \<^typ>\<open>string\<close>, one \<^typ>\<open>char\<close> for one code unit; the
  texts the module inspects (host names, blocklist entries, the URL pattern) are ASCII.
  A thrown value is an \<open>error\<close> carrying its message, and a computation that may throw
  returns \<open>error + 'a\<close> with \<open>Inl\<close> for the throw.
\<close>

datatype error = Error string

fun message_of :: "error \<Rightarrow> string" where
  "message_of (Error m) = m"

definition try_catch :: "error + 'a \<Rightarrow> (error \<Rightarrow> error + 'a) \<Rightarrow> error + 'a" where
  "try_catch body handler = (case body of Inl e \<Rightarrow> handler e | Inr v \<Rightarrow> Inr v)"

definition and_then :: "error + 'a \<Rightarrow> ('a \<Rightarrow> error + 'b) \<Rightarrow> error + 'b" where
  "and_then m f = (case m of Inl e \<Rightarrow> Inl e | Inr v \<Rightarrow> f v)"

text \<open>\<open>String.prototype.toLowerCase\<close> on ASCII text.\<close>

definition lower_char :: "char \<Rightarrow> char" where
  "lower_char c =
     (let n = (of_char c :: nat) in if 65 \<le> n \<and> n \<le> 90 then char_of (n + 32) else c)"

definition toLowerCase :: "string \<Rightarrow> string" where
  "toLowerCase s = map lower_char s"

text \<open>\<open>s.includes(t)\<close> (as \<open>str_includes\<close>), \<open>s.endsWith(t)\<close> and \<open>s.startsWith(t)\<close>.\<close>

definition str_includes :: "string \<Rightarrow> string \<Rightarrow> bool" where
  "str_includes s t = sublist t s"

definition endsWith :: "string \<Rightarrow> string \<Rightarrow> bool" where
  "endsWith s t = suffix t s"

definition startsWith :: "string \<Rightarrow> string \<Rightarrow> bool" where
  "startsWith s t = prefix t s"

text \<open>
  The truthiness test \<open>if (x)\<close> on a value of type \<open>string | null\<close>: \<open>null\<close> and the
  empty string are falsy.
\<close>

fun truthy :: "string option \<Rightarrow> bool" where
  "truthy None = False"
| "truthy (Some s) = (s \<noteq> [])"

section \<open>The URL constructor\<close>

text \<open>
  \<open>new URL(url)\<close> is the platform's parser, not code of the repository. The security
  functions take it as the parameter \<open>URL\<close>: it either throws (\<open>Inl\<close>) or yields the
  two fields the module reads. Every general theorem below holds for every such parser.
\<close>

record parsed_url =
  hostname :: string
  pathname :: string

type_synonym url_parser = "string \<Rightarrow> error + parsed_url"

text \<open>
  For closed examples a concrete parser is needed. \<open>plain_URL\<close> follows the platform's
  parser on plain absolute URLs \<open>http://host/path\<close> and \<open>https://host/path\<close>: the scheme
  is matched without regard to case, the host is the text up to the first \<open>/\<close>, \<open>?\<close>
  or \<open>#\<close> and is lowercased, the path is the text up to the first \<open>?\<close> or \<open>#\<close>, and an
  empty path reads \<open>/\<close>. A text without the \<open>http(s)://\<close> prefix (a relative reference, a bare
  word) or with an empty host is rejected with the platform's \<open>TypeError\<close>. It is used only on
  inputs whose host consists of letters, digits, \<open>-\<close> and \<open>.\<close> and whose path needs no
  normalisation; user information, ports, other schemes, dot segments and percent-encoding are
  outside it.
\<close>

definition host_char :: "char \<Rightarrow> bool" where
  "host_char c = (c \<noteq> CHR ''/'' \<and> c \<noteq> CHR ''?'' \<and> c \<noteq> CHR ''#'')"

definition path_char :: "char \<Rightarrow> bool" where
  "path_char c = (c \<noteq> CHR ''?'' \<and> c \<noteq> CHR ''#'')"

definition after_scheme :: "string \<Rightarrow> string option" where
  "after_scheme s =
     (if startsWith (toLowerCase s) ''https://'' then Some (drop 8 s)
      else if startsWith (toLowerCase s) ''http://'' then Some (drop 7 s)
      else None)"

definition plain_URL :: url_parser where
  "plain_URL s =
     (case after_scheme s of
        None \<Rightarrow> Inl (Error ''Invalid URL'')
      | Some rest \<Rightarrow>
          (let host = takeWhile host_char rest;
               path = takeWhile path_char (dropWhile host_char rest)
           in if host = [] then Inl (Error ''Invalid URL'')
              else Inr \<lparr>hostname = toLowerCase host,
                        pathname = (if path = [] then ''/'' else path)\<rparr>))"

section \<open>The blocklist\<close>

text \<open>
  \<open>BLOCKED_DOMAINS\<close> is a module-level array that \<open>addBlockedDomain\<close> and
  \<open>removeBlockedDomain\<close> mutate; the checks read its current value, so they take the list as
  an argument. The constant is its initial value, in the order of the source.
\<close>

definition BLOCKED_DOMAINS :: "string list" where
  "BLOCKED_DOMAINS =
    [''chase.com'', ''bankofamerica.com'', ''wellsfargo.com'', ''citi.com'', ''citibank.com'',
     ''capitalone.com'', ''usbank.com'', ''pnc.com'', ''schwab.com'', ''fidelity.com'',
     ''vanguard.com'', ''tdameritrade.com'', ''etrade.com'', ''robinhood.com'', ''coinbase.com'',
     ''binance.com'', ''kraken.com'', ''paypal.com'', ''venmo.com'', ''zelle.com'', ''wise.com'',
     ''mercury.com'', ''brex.com'', ''stripe.com/dashboard'',
     ''mail.google.com'', ''outlook.live.com'', ''outlook.office.com'', ''mail.yahoo.com'',
     ''proton.me'', ''protonmail.com'',
     ''mychart.com'', ''mychartonline.com'', ''portal.anthem.com'', ''uhc.com'', ''cigna.com'',
     ''aetna.com'', ''kaiser.permanente.org'',
     ''irs.gov'', ''ssa.gov'', ''id.me'', ''login.gov'']"

text \<open>
  The test one entry gets inside the loop of \<open>getBlockedDomain\<close>: an entry with a \<open>/\<close> is
  searched in host + path, an entry without one is compared with the host (the source's
  local \<open>hostname\<close> is \<open>host\<close> here, the record field keeps the name).
\<close>

definition entry_matches :: "string \<Rightarrow> string \<Rightarrow> string \<Rightarrow> bool" where
  "entry_matches host fullPath domain =
     (if str_includes domain ''/'' then str_includes fullPath domain
      else host = domain \<or> endsWith host (''.'' @ domain))"

text \<open>The \<open>for (const domain of BLOCKED_DOMAINS)\<close> loop, returning at the first match.\<close>

fun scan_blocklist :: "string \<Rightarrow> string \<Rightarrow> string list \<Rightarrow> string option" where
  "scan_blocklist host fullPath [] = None"
| "scan_blocklist host fullPath (domain # rest) =
     (if str_includes domain ''/'' then
        (if str_includes fullPath domain then Some domain
         else scan_blocklist host fullPath rest)
      else
        (if host = domain \<or> endsWith host (''.'' @ domain) then Some domain
         else scan_blocklist host fullPath rest))"

text \<open>
  The body of the \<open>try\<close> block, then the function with its \<open>catch\<close>, which swallows the
  parser's exception and falls through to \<open>return null\<close>. \<open>None\<close> is \<open>null\<close>.
\<close>

definition getBlockedDomain_try :: "url_parser \<Rightarrow> string list \<Rightarrow> string \<Rightarrow> error + string option" where
  "getBlockedDomain_try URL blocked url =
     and_then (URL url) (\<lambda>parsed.
       let host = toLowerCase (hostname parsed);
           fullPath = host @ pathname parsed
       in Inr (scan_blocklist host fullPath blocked))"

definition getBlockedDomain :: "url_parser \<Rightarrow> string list \<Rightarrow> string \<Rightarrow> error + string option" where
  "getBlockedDomain URL blocked url =
     try_catch (getBlockedDomain_try URL blocked url) (\<lambda>e. Inr None)"

section \<open>URLs embedded in an action text\<close>

text \<open>
  \<open>action.match(/https?:\/\/[^\s"'<>]+/gi)\<close>. \<open>is_space\<close> is the class \<open>\s\<close> on code units
  below 256; \<open>url_char\<close> is the negated class. \<open>match_here\<close> matches the pattern at the start
  of a text and returns the matched prefix: \<open>http\<close> in any case, an optional \<open>s\<close>, \<open>://\<close>,
  then the longest non-empty run of \<open>url_char\<close>. \<open>match_all\<close> is the global search: after a
  match it resumes behind it (behind an empty match, which this pattern never gives, one code
  unit further, as the platform does), otherwise one code unit further on.
\<close>

definition is_space :: "char \<Rightarrow> bool" where
  "is_space c = ((of_char c :: nat) \<in> {9, 10, 11, 12, 13, 32, 160})"

definition url_char :: "char \<Rightarrow> bool" where
  "url_char c = (\<not> is_space c \<and> c \<noteq> CHR 0x22 \<and> c \<noteq> CHR 0x27 \<and> c \<noteq> CHR ''<'' \<and> c \<noteq> CHR ''>'')"

definition match_here :: "string \<Rightarrow> string option" where
  "match_here s =
     (if startsWith (toLowerCase s) ''http'' then
        (let r = drop 4 s;
             n = (if startsWith (toLowerCase r) ''s'' then 5 else 4);
             t = drop n s
         in if startsWith t ''://'' \<and> takeWhile url_char (drop 3 t) \<noteq> []
            then Some (take (n + 3 + length (takeWhile url_char (drop 3 t))) s)
            else None)
      else None)"

function match_all :: "string \<Rightarrow> string list" where
  "match_all s =
     (if s = [] then []
      else (case match_here s of
              Some m \<Rightarrow> m # match_all (drop (max 1 (length m)) s)
            | None \<Rightarrow> match_all (tl s)))"
  by pat_completeness auto
termination
  by (relation "measure length") (auto simp: neq_Nil_conv)

declare match_all.simps [simp del]

text \<open>\<open>match\<close> returns \<open>null\<close> when nothing matched, the array of matches otherwise.\<close>

definition match_urlPattern :: "string \<Rightarrow> string list option" where
  "match_urlPattern action = (let ms = match_all action in if ms = [] then None else Some ms)"

text \<open>The \<open>for (const url of urls)\<close> loop of \<open>actionReferencesBlockedDomain\<close>.\<close>

fun scan_urls :: "url_parser \<Rightarrow> string list \<Rightarrow> string list \<Rightarrow> error + string option" where
  "scan_urls URL blocked [] = Inr None"
| "scan_urls URL blocked (url # rest) =
     and_then (getBlockedDomain URL blocked url) (\<lambda>b.
       if truthy b then Inr b else scan_urls URL blocked rest)"

definition actionReferencesBlockedDomain :: "url_parser \<Rightarrow> string list \<Rightarrow> string \<Rightarrow> error + string option" where
  "actionReferencesBlockedDomain URL blocked action =
     (case match_urlPattern action of
        None \<Rightarrow> Inr None
      | Some urls \<Rightarrow> scan_urls URL blocked urls)"

section \<open>The claim about bare entries, in the specification's words\<close>

text \<open>
  The specification speaks of a host that equals a bare (path-free) entry or is a subdomain
  of it. \<open>bare_match\<close> is that relation, written from the specification, to be compared
  with what the loop of \<open>getBlockedDomain\<close> does.
\<close>

definition bare_match :: "string \<Rightarrow> string \<Rightarrow> bool" where
  "bare_match host entry =
     (\<not> str_includes entry ''/'' \<and> (host = entry \<or> endsWith host (''.'' @ entry)))"

section \<open>Numbers and their decimal text\<close>

text \<open>
  The port is an integral JavaScript number; it is modelled as an \<^typ>\<open>int\<close>, and \<open>NaN\<close> as
  \<open>None\<close>. \<open>parseInt(text, 10)\<close> skips leading white space, reads an optional sign and the
  longest run of decimal digits, and yields \<open>NaN\<close> when there is no digit. \<open>String(n)\<close> is the
  decimal text of an integer. Both are exact here; the platform rounds integers beyond
  \<open>2^53\<close> and prints them in exponent notation from \<open>10^21\<close> on, far above any port the
  program generates.
\<close>

definition is_digit :: "char \<Rightarrow> bool" where
  "is_digit c = (48 \<le> (of_char c :: nat) \<and> (of_char c :: nat) \<le> 57)"

definition digit_value :: "char \<Rightarrow> int" where
  "digit_value c = int (of_char c) - 48"

definition digit_char :: "nat \<Rightarrow> char" where
  "digit_char d = ''0123456789'' ! d"

definition parse_digits :: "string \<Rightarrow> int" where
  "parse_digits ds = foldl (\<lambda>n c. 10 * n + digit_value c) 0 ds"

definition trim :: "string \<Rightarrow> string" where
  "trim s = rev (dropWhile is_space (rev (dropWhile is_space s)))"

definition parseInt :: "string \<Rightarrow> int option" where
  "parseInt input =
     (let s = dropWhile is_space input;
          negative = startsWith s ''-'';
          body = (if startsWith s ''-'' \<or> startsWith s ''+'' then tl s else s);
          ds = takeWhile is_digit body
      in if ds = [] then None
         else Some (if negative then - parse_digits ds else parse_digits ds))"

fun digits :: "nat \<Rightarrow> string" where
  "digits n = (if n < 10 then [digit_char n] else digits (n div 10) @ [digit_char (n mod 10)])"

declare digits.simps [simp del]

definition String_of :: "int \<Rightarrow> string" where
  "String_of n = (if n < 0 then ''-'' @ digits (nat (- n)) else digits (nat n))"

text \<open>
  \<open>getRandomCdpPort\<close>: \<open>Math.floor(Math.random() * 55000) + 10000\<close>. The argument is the value
  \<open>Math.random()\<close> returns, a number \<open>r\<close> with \<open>0 \<le> r < 1\<close>. The product is exact
  here; the platform rounds it to a double before the floor, which leaves the port an integer
  from 10000 to 64999.
\<close>

definition getRandomCdpPort :: "real \<Rightarrow> int" where
  "getRandomCdpPort r = \<lfloor>r * 55000\<rfloor> + 10000"

section \<open>The process state and the file system\<close>

text \<open>
  The files the program handles live under \<open>PLUGIN_ROOT\<close>; a path is written relative to it.
  The file system maps a path to a regular file with its text, to a directory, or to nothing.
  The \<open>fs\<close> calls are functions of that state: reading or unlinking a directory or a missing path
  throws, as does writing over a directory. Permissions and device faults are not modelled, and
  what the browser itself writes inside its profile is not part of the state.
\<close>

datatype node = File string | Dir

type_synonym filesystem = "string \<Rightarrow> node option"

record state =
  stagehandInstance :: bool
  currentPage :: bool
  chromeProcess :: bool
  weStartedChrome :: bool
  files :: filesystem
  console_error :: "string list"

text \<open>
  The four module variables hold a handle or \<open>null\<close>; the model keeps whether each is set.
  \<open>console_error\<close> collects the lines written by \<open>console.error\<close>.

  An effectful computation takes the state and returns a value or a thrown error together with
  the state it leaves; a throw keeps the changes made before it.
\<close>

type_synonym 'a io = "state \<Rightarrow> (error + 'a) \<times> state"

definition io_return :: "'a \<Rightarrow> 'a io" where
  "io_return v = (\<lambda>s. (Inr v, s))"

definition io_throw :: "error \<Rightarrow> 'a io" where
  "io_throw e = (\<lambda>s. (Inl e, s))"

definition io_bind :: "'a io \<Rightarrow> ('a \<Rightarrow> 'b io) \<Rightarrow> 'b io" where
  "io_bind m f = (\<lambda>s. case m s of (Inl e, s') \<Rightarrow> (Inl e, s') | (Inr v, s') \<Rightarrow> f v s')"

definition io_catch :: "'a io \<Rightarrow> (error \<Rightarrow> 'a io) \<Rightarrow> 'a io" where
  "io_catch m handler = (\<lambda>s. case m s of (Inl e, s') \<Rightarrow> handler e s' | (Inr v, s') \<Rightarrow> (Inr v, s'))"

text \<open>
  \<open>try { m } finally { fin }\<close>: \<open>fin\<close> runs in either case; if it throws, its error wins,
  otherwise the outcome of \<open>m\<close> stands.
\<close>

definition io_finally :: "'a io \<Rightarrow> unit io \<Rightarrow> 'a io" where
  "io_finally m fin =
     (\<lambda>s. case m s of (r, s') \<Rightarrow> (case fin s' of (Inl e, s'') \<Rightarrow> (Inl e, s'') | (Inr u, s'') \<Rightarrow> (r, s'')))"

text \<open>A call outside the program whose outcome the environment decides.\<close>

definition io_lift :: "error + 'a \<Rightarrow> 'a io" where
  "io_lift outcome = (\<lambda>s. (outcome, s))"

definition io_modify :: "(state \<Rightarrow> state) \<Rightarrow> unit io" where
  "io_modify f = (\<lambda>s. (Inr (), f s))"

definition io_when :: "(state \<Rightarrow> bool) \<Rightarrow> unit io \<Rightarrow> unit io" where
  "io_when cond m = (\<lambda>s. if cond s then m s else (Inr (), s))"

definition log_error :: "string \<Rightarrow> unit io" where
  "log_error line = io_modify (\<lambda>s. s\<lparr>console_error := console_error s @ [line]\<rparr>)"

definition CDP_PORT_FILE :: string where
  "CDP_PORT_FILE = ''.cdp-port''"

definition pidFilePath :: string where
  "pidFilePath = ''.chrome-pid''"

definition persistentProfileDir :: string where
  "persistentProfileDir = ''.chrome-profile''"

definition existsSync :: "string \<Rightarrow> state \<Rightarrow> bool" where
  "existsSync path s = (files s path \<noteq> None)"

definition readFileSync :: "string \<Rightarrow> string io" where
  "readFileSync path =
     (\<lambda>s. case files s path of
             Some (File text) \<Rightarrow> (Inr text, s)
           | Some Dir \<Rightarrow> (Inl (Error ''EISDIR: illegal operation on a directory, read''), s)
           | None \<Rightarrow> (Inl (Error ''ENOENT: no such file or directory''), s))"

definition writeFileSync :: "string \<Rightarrow> string \<Rightarrow> unit io" where
  "writeFileSync path text =
     (\<lambda>s. case files s path of
             Some Dir \<Rightarrow> (Inl (Error ''EISDIR: illegal operation on a directory, open''), s)
           | _ \<Rightarrow> (Inr (), s\<lparr>files := (files s)(path \<mapsto> File text)\<rparr>))"

definition unlinkSync :: "string \<Rightarrow> unit io" where
  "unlinkSync path =
     (\<lambda>s. case files s path of
             Some (File text) \<Rightarrow> (Inr (), s\<lparr>files := (files s)(path := None)\<rparr>)
           | Some Dir \<Rightarrow> (Inl (Error ''EPERM: operation not permitted, unlink''), s)
           | None \<Rightarrow> (Inl (Error ''ENOENT: no such file or directory''), s))"

section \<open>Port resolution\<close>

text \<open>
  \<open>getCdpPort\<close>. The \<open>try\<close> block reads and parses the file and returns the saved port when it
  is positive (\<open>NaN > 0\<close> is false); its empty \<open>catch\<close> swallows a failed read. In every other
  case a fresh port is drawn and written. \<open>r\<close> is what \<open>Math.random()\<close> returns if it is called.
\<close>

definition read_saved_port :: "int option io" where
  "read_saved_port =
     io_catch
       (io_bind (readFileSync CDP_PORT_FILE) (\<lambda>text.
          io_return (case parseInt (trim text) of
                       None \<Rightarrow> None
                     | Some saved \<Rightarrow> if saved > 0 then Some saved else None)))
       (\<lambda>e. io_return None)"

definition getCdpPort :: "real \<Rightarrow> int io" where
  "getCdpPort r =
     io_bind (\<lambda>s. if existsSync CDP_PORT_FILE s then read_saved_port s else (Inr None, s))
       (\<lambda>found. case found of
           Some saved \<Rightarrow> io_return saved
         | None \<Rightarrow>
             (let port = getRandomCdpPort r
              in io_bind (writeFileSync CDP_PORT_FILE (String_of port)) (\<lambda>u. io_return port)))"

section \<open>The environment of a command\<close>

text \<open>
  Everything a command calls outside \<open>cli.ts\<close> and the security module is a field of the
  environment. The calls of \<open>closeBrowser\<close> are given by their outcomes (a value or a throw); a
  rejected promise, a timeout and a synchronous throw are all \<open>Inl\<close>, and every awaited call
  settles one way or the other. \<open>initBrowser\<close> (the session start of \<open>cli.ts\<close>; no property
  below depends on what it does once called), the page, the automation engine, \<open>takeScreenshot\<close>
  and \<open>prepareChromeProfile\<close> are arbitrary computations on the state. \<open>JSON_parse_schema\<close> is \<open>JSON.parse\<close> on the schema argument, giving the entries of the parsed
  object in \<open>Object.entries\<close> order; \<open>JSON_parse_pid\<close> is \<open>JSON.parse\<close> followed by the
  destructuring \<open>const { pid } = ...\<close>, giving the text that \<open>${pid}\<close> interpolates.
\<close>

datatype zod_type = ZString | ZNumber | ZBoolean

text \<open>
  \<open>zodSchema\<close> starts as the plain object \<open>{}\<close>. It is modelled by its own enumerable
  properties, in insertion order, and by its prototype: \<open>None\<close> for \<open>Object.prototype\<close>,
  \<open>Some z\<close> once an assignment to the key \<open>__proto__\<close> has replaced it by the Zod schema
  \<open>z\<close>. What an assignment to a key does that is not an own property and is looked up on
  such a replaced prototype is decided by Zod's objects, outside the repository: it defines an
  own property, runs a setter, or throws (the module is strict). The environment gives that
  answer.
\<close>

record zod_object =
  own_fields :: "(string \<times> zod_type) list"
  prototype :: "zod_type option"

datatype assign_effect = DefinesOwn | CallsSetter | ThrowsTypeError

record response =
  ok :: bool
  json_webSocketDebuggerUrl :: "error + string"

record env =
  new_URL :: url_parser
  JSON_parse_schema :: "string \<Rightarrow> error + (string \<times> string) list"
  prepareChromeProfile :: "unit io"
  initBrowser :: "unit io"
  page_goto :: "string \<Rightarrow> string \<Rightarrow> unit io"
  takeScreenshot :: "string io"
  stagehand_act :: "string \<Rightarrow> unit io"
  zod_inherited :: "zod_type \<Rightarrow> string \<Rightarrow> assign_effect"
  stagehand_extract :: "string \<Rightarrow> zod_object option \<Rightarrow> string io"
  stagehand_observe :: "string \<Rightarrow> string io"
  stagehand_close :: "error + unit"
  kill_SIGTERM :: "error + unit"
  exitCode_is_null :: bool
  kill_SIGKILL :: "error + unit"
  fetch_version :: "error + response"
  tempStagehand_init :: "error + unit"
  tempStagehand_close :: "error + unit"
  fetch_version_again :: "error + unit"
  JSON_parse_pid :: "string \<Rightarrow> error + string"
  exec_ps_comm :: "string \<Rightarrow> error + string"
  process_kill :: "string \<Rightarrow> error + unit"

section \<open>Shutdown\<close>

text \<open>
  \<open>closeBrowser\<close>, block by block. First the in-process engine handle, whose \<open>close\<close> is inside a
  \<open>try\<close> with a logging \<open>catch\<close>.
\<close>

definition close_stagehand :: "env \<Rightarrow> unit io" where
  "close_stagehand env =
     io_when stagehandInstance
       (io_bind
          (io_catch (io_lift (stagehand_close env))
             (\<lambda>err. log_error (''Error closing Stagehand: '' @ message_of err)))
          (\<lambda>u. io_modify (\<lambda>s. s\<lparr>stagehandInstance := False, currentPage := False\<rparr>)))"

text \<open>Then the browser process this invocation spawned: \<open>SIGTERM\<close>, a wait, \<open>SIGKILL\<close> if still alive.\<close>

definition kill_started_chrome :: "env \<Rightarrow> unit io" where
  "kill_started_chrome env =
     io_when (\<lambda>s. chromeProcess s \<and> weStartedChrome s)
       (io_bind
          (io_catch
             (io_bind (io_lift (kill_SIGTERM env)) (\<lambda>u.
                if exitCode_is_null env then io_lift (kill_SIGKILL env) else io_return ()))
             (\<lambda>err. log_error (''Error killing Chrome: '' @ message_of err)))
          (\<lambda>u. io_modify (\<lambda>s. s\<lparr>chromeProcess := False, weStartedChrome := False\<rparr>)))"

text \<open>
  The inner \<open>try\<close> of the CDP shutdown: probe again, and if the browser still answers read the PID
  record and kill that process when \<open>ps\<close> names it a Chrome. The innermost \<open>try\<close> has an empty
  \<open>catch\<close>.
\<close>

definition force_kill_via_pid :: "env \<Rightarrow> unit io" where
  "force_kill_via_pid env =
     io_bind (io_lift (fetch_version_again env)) (\<lambda>u.
       (\<lambda>s. if existsSync pidFilePath s then
               io_bind (readFileSync pidFilePath) (\<lambda>text.
                 io_bind (io_lift (JSON_parse_pid env text)) (\<lambda>pid.
                   io_catch
                     (io_bind (io_lift (exec_ps_comm env pid)) (\<lambda>stdout.
                        if str_includes (toLowerCase (trim stdout)) ''chrome''
                        then io_lift (process_kill env pid) else io_return ()))
                     (\<lambda>e. io_return ()))) s
             else (Inr (), s)))"

text \<open>The body of the outer \<open>try\<close>: probe, open and close a throwaway engine connection, then the inner \<open>try\<close> with its empty \<open>catch\<close>.\<close>

definition cdp_shutdown :: "env \<Rightarrow> unit io" where
  "cdp_shutdown env =
     io_bind (io_lift (fetch_version env)) (\<lambda>response.
       if ok response then
         io_bind (io_lift (json_webSocketDebuggerUrl response)) (\<lambda>wsUrl.
           io_bind (io_lift (tempStagehand_init env)) (\<lambda>u.
             io_bind (io_lift (tempStagehand_close env)) (\<lambda>u.
               io_catch (force_kill_via_pid env) (\<lambda>e. io_return ()))))
       else io_return ())"

text \<open>The \<open>finally\<close> block.\<close>

definition remove_pid_file :: "unit io" where
  "remove_pid_file =
     io_when (existsSync pidFilePath)
       (io_catch (unlinkSync pidFilePath) (\<lambda>e. io_return ()))"

definition closeBrowser :: "env \<Rightarrow> unit io" where
  "closeBrowser env =
     io_bind (close_stagehand env) (\<lambda>u.
       io_bind (kill_started_chrome env) (\<lambda>u.
         io_finally (io_catch (cdp_shutdown env) (\<lambda>e. io_return ())) remove_pid_file))"

section \<open>Commands\<close>

record result =
  success :: bool
  message :: "string option"
  error :: "string option"
  screenshot :: "string option"

definition failure :: "string \<Rightarrow> result" where
  "failure text = \<lparr>success = False, message = None, error = Some text, screenshot = None\<rparr>"

definition quoted :: "string \<Rightarrow> string" where
  "quoted s = [CHR 0x22] @ s @ [CHR 0x22]"

text \<open>
  \<open>cli.ts\<close> never calls \<open>addBlockedDomain\<close> or \<open>removeBlockedDomain\<close>, so in a command the
  array holds its initial value \<open>BLOCKED_DOMAINS\<close>. \<open>navigate\<close> and \<open>act\<close> call the check
  outside their \<open>try\<close>; everything after it is inside.
\<close>

definition navigate :: "env \<Rightarrow> string \<Rightarrow> result io" where
  "navigate env url =
     io_bind (io_lift (getBlockedDomain (new_URL env) BLOCKED_DOMAINS url)) (\<lambda>blockedDomain.
       if truthy blockedDomain then
         io_return (failure (''BLOCKED: Navigation to '' @ quoted (the blockedDomain)
                               @ '' is restricted by security policy.''))
       else
         io_catch
           (io_bind (initBrowser env) (\<lambda>u.
              io_bind (io_catch (page_goto env url ''networkidle'')
                         (\<lambda>e. page_goto env url ''domcontentloaded'')) (\<lambda>u.
                io_bind (takeScreenshot env) (\<lambda>screenshotPath.
                  io_return \<lparr>success = True,
                             message = Some (''Successfully navigated to '' @ url),
                             error = None, screenshot = Some screenshotPath\<rparr>))))
           (\<lambda>err. io_return (failure (message_of err))))"

definition act :: "env \<Rightarrow> string \<Rightarrow> result io" where
  "act env action =
     io_bind (io_lift (actionReferencesBlockedDomain (new_URL env) BLOCKED_DOMAINS action)) (\<lambda>blockedDomain.
       if truthy blockedDomain then
         io_return (failure (''BLOCKED: Action references restricted domain ''
                               @ quoted (the blockedDomain) @ ''.''))
       else
         io_catch
           (io_bind (initBrowser env) (\<lambda>u.
              io_bind (stagehand_act env action) (\<lambda>u.
                io_bind (takeScreenshot env) (\<lambda>screenshotPath.
                  io_return \<lparr>success = True,
                             message = Some (''Successfully performed action: '' @ action),
                             error = None, screenshot = Some screenshotPath\<rparr>))))
           (\<lambda>err. io_return (failure (message_of err))))"

text \<open>
  The schema of \<open>extract\<close> (named \<open>extract_command\<close> below). \<open>assign_field\<close> is the
  assignment \<open>zodSchema[key] = z.string()\<close> (or \<open>z.number()\<close>, \<open>z.boolean()\<close>): an own property is
  overwritten; the key \<open>__proto__\<close> reaches the accessor of \<open>Object.prototype\<close>, which replaces
  the prototype and adds no own property; any other key becomes an own property of a plain
  object, and on a replaced prototype does what the environment says.
\<close>

definition assign_field ::
  "(zod_type \<Rightarrow> string \<Rightarrow> assign_effect) \<Rightarrow> string \<Rightarrow> zod_type \<Rightarrow> zod_object \<Rightarrow> error + zod_object" where
  "assign_field inherited key v obj =
     (if key \<in> fst ` set (own_fields obj) then
        Inr (obj\<lparr>own_fields := AList.update key v (own_fields obj)\<rparr>)
      else if key = ''__proto__'' then Inr (obj\<lparr>prototype := Some v\<rparr>)
      else
        (case prototype obj of
           None \<Rightarrow> Inr (obj\<lparr>own_fields := AList.update key v (own_fields obj)\<rparr>)
         | Some z \<Rightarrow>
             (case inherited z key of
                DefinesOwn \<Rightarrow> Inr (obj\<lparr>own_fields := AList.update key v (own_fields obj)\<rparr>)
              | CallsSetter \<Rightarrow> Inr obj
              | ThrowsTypeError \<Rightarrow> Inl (Error ''Cannot set property''))))"

text \<open>
  The loop over \<open>Object.entries(schema)\<close> carries \<open>zodSchema\<close> and the flag \<open>hasValidTypes\<close>;
  the \<open>switch\<close> has three cases and a default that clears the flag. The loop and the test after
  it are the body of a \<open>try\<close> with an empty \<open>catch\<close>: \<open>zodSchemaObject\<close> is set only if nothing
  threw, the flag survived and \<open>Object.keys(zodSchema)\<close> is not empty, and
  \<open>extractOptions.schema\<close> is set only if \<open>zodSchemaObject\<close> is. The engine gets that value,
  \<open>None\<close> for no schema. The \<open>schema\<close> argument is absent (\<open>None\<close>) or an object given by its
  entries; a value that is not one of the three type names, whatever it is, takes the default
  branch.
\<close>

fun schema_loop ::
  "(zod_type \<Rightarrow> string \<Rightarrow> assign_effect) \<Rightarrow> (string \<times> string) list \<Rightarrow> zod_object \<times> bool
     \<Rightarrow> error + zod_object \<times> bool" where
  "schema_loop inherited [] acc = Inr acc"
| "schema_loop inherited ((key, ty) # rest) (zodSchema, hasValidTypes) =
     (if ty = ''string'' then
        and_then (assign_field inherited key ZString zodSchema)
          (\<lambda>z. schema_loop inherited rest (z, hasValidTypes))
      else if ty = ''number'' then
        and_then (assign_field inherited key ZNumber zodSchema)
          (\<lambda>z. schema_loop inherited rest (z, hasValidTypes))
      else if ty = ''boolean'' then
        and_then (assign_field inherited key ZBoolean zodSchema)
          (\<lambda>z. schema_loop inherited rest (z, hasValidTypes))
      else schema_loop inherited rest (zodSchema, False))"

definition zodSchemaObject ::
  "(zod_type \<Rightarrow> string \<Rightarrow> assign_effect) \<Rightarrow> (string \<times> string) list option \<Rightarrow> error + zod_object option" where
  "zodSchemaObject inherited schema =
     (case schema of
        None \<Rightarrow> Inr None
      | Some entries \<Rightarrow>
          try_catch
            (and_then (schema_loop inherited entries (\<lparr>own_fields = [], prototype = None\<rparr>, True))
               (\<lambda>(zodSchema, hasValidTypes).
                  Inr (if hasValidTypes \<and> length (own_fields zodSchema) > 0
                       then Some zodSchema else None)))
            (\<lambda>e. Inr None))"

definition extract_command :: "env \<Rightarrow> string \<Rightarrow> (string \<times> string) list option \<Rightarrow> result io" where
  "extract_command env instruction schema =
     io_catch
       (io_bind (initBrowser env) (\<lambda>u.
          io_bind (io_lift (zodSchemaObject (zod_inherited env) schema)) (\<lambda>schemaObject.
            io_bind (stagehand_extract env instruction schemaObject) (\<lambda>extracted.
              io_bind (takeScreenshot env) (\<lambda>screenshotPath.
                io_return \<lparr>success = True,
                           message = Some (''Successfully extracted data: '' @ extracted),
                           error = None, screenshot = Some screenshotPath\<rparr>)))))
       (\<lambda>err. io_return (failure (message_of err)))"

definition observe :: "env \<Rightarrow> string \<Rightarrow> result io" where
  "observe env query =
     io_catch
       (io_bind (initBrowser env) (\<lambda>u.
          io_bind (stagehand_observe env query) (\<lambda>actions.
            io_bind (takeScreenshot env) (\<lambda>screenshotPath.
              io_return \<lparr>success = True,
                         message = Some (''Successfully observed: '' @ actions),
                         error = None, screenshot = Some screenshotPath\<rparr>))))
       (\<lambda>err. io_return (failure (message_of err)))"

text \<open>\<open>screenshot\<close>, named \<open>screenshot_command\<close> beside the field of the result.\<close>

definition screenshot_command :: "env \<Rightarrow> result io" where
  "screenshot_command env =
     io_catch
       (io_bind (initBrowser env) (\<lambda>u.
          io_bind (takeScreenshot env) (\<lambda>screenshotPath.
            io_return \<lparr>success = True, message = None, error = None,
                       screenshot = Some screenshotPath\<rparr>)))
       (\<lambda>err. io_return (failure (message_of err)))"

text \<open>The \<open>close\<close> case of \<open>main\<close>.\<close>

definition close_case :: "env \<Rightarrow> result io" where
  "close_case env =
     io_bind (closeBrowser env) (\<lambda>u.
       io_bind (io_when (existsSync CDP_PORT_FILE)
                  (io_catch (unlinkSync CDP_PORT_FILE) (\<lambda>e. io_return ()))) (\<lambda>u.
         io_return \<lparr>success = True, message = Some ''Browser closed (profile preserved)'',
                    error = None, screenshot = None\<rparr>))"

text \<open>
  \<open>main\<close>. \<open>args\<close> is \<open>process.argv.slice(2)\<close>. The \<open>switch\<close> is inside the \<open>try\<close>; its result is
  printed and the process exits with 0. The \<open>catch\<close> runs \<open>closeBrowser\<close>, prints the error and
  exits with 1. \<open>prepareChromeProfile\<close> runs before the \<open>try\<close>, so its throw rejects \<open>main\<close>.
\<close>

definition join_space :: "string list \<Rightarrow> string" where
  "join_space ws = (case ws of [] \<Rightarrow> [] | w # rest \<Rightarrow> foldl (\<lambda>acc x. acc @ '' '' @ x) w rest)"

definition available :: string where
  "available = [CHR 0x0A] @ ''Available: navigate, act, extract, observe, screenshot, close''"

definition main_switch :: "env \<Rightarrow> string list \<Rightarrow> result io" where
  "main_switch env args =
     (case args of
        [] \<Rightarrow> io_throw (Error (''Unknown command: undefined'' @ available))
      | command # rest \<Rightarrow>
          if command = ''navigate'' then
            (if length args < 2 then io_throw (Error ''Usage: browser navigate <url>'')
             else navigate env (args ! 1))
          else if command = ''act'' then
            (if length args < 2 then io_throw (Error (''Usage: browser act '' @ quoted ''<action>''))
             else act env (join_space (drop 1 args)))
          else if command = ''extract'' then
            (if length args < 2 then io_throw (Error (''Usage: browser extract '' @ quoted ''<instruction>''))
             else if length args > 2 \<and> args ! 2 \<noteq> [] then
               io_bind (io_lift (JSON_parse_schema env (args ! 2))) (\<lambda>schema.
                 extract_command env (args ! 1) (Some schema))
             else extract_command env (args ! 1) None)
          else if command = ''observe'' then
            (if length args < 2 then io_throw (Error (''Usage: browser observe '' @ quoted ''<query>''))
             else observe env (join_space (drop 1 args)))
          else if command = ''screenshot'' then screenshot_command env
          else if command = ''close'' then close_case env
          else io_throw (Error (''Unknown command: '' @ command @ available)))"

datatype outcome = Exit nat result | Rejected error

definition main :: "env \<Rightarrow> string list \<Rightarrow> state \<Rightarrow> outcome \<times> state" where
  "main env args s =
     (case prepareChromeProfile env s of
        (Inl e, s0) \<Rightarrow> (Rejected e, s0)
      | (Inr u, s0) \<Rightarrow>
          (case main_switch env args s0 of
             (Inr r, s1) \<Rightarrow> (Exit 0 r, s1)
           | (Inl err, s1) \<Rightarrow>
               (case closeBrowser env s1 of
                  (Inl e, s2) \<Rightarrow> (Rejected e, s2)
                | (Inr u, s2) \<Rightarrow> (Exit 1 (failure (message_of err)), s2))))"

section \<open>Notions of the specification and example inputs\<close>

text \<open>
  The specification's "recognized type" of a schema field: one of \<open>string\<close>, \<open>number\<close>,
  \<open>boolean\<close>. It is written from the specification and compared below with the \<open>switch\<close> of
  \<open>extract\<close>.
\<close>

definition recognized :: "string \<Rightarrow> zod_type option" where
  "recognized ty =
     (if ty = ''string'' then Some ZString
      else if ty = ''number'' then Some ZNumber
      else if ty = ''boolean'' then Some ZBoolean
      else None)"

text \<open>The result the specification gives for \<open>close\<close>.\<close>

definition closed_result :: result where
  "closed_result = \<lparr>success = True, message = Some ''Browser closed (profile preserved)'',
                     error = None, screenshot = None\<rparr>"

text \<open>
  An environment and two states for the closed examples. In \<open>example_env\<close> the engine's
  \<open>close\<close>, the \<open>SIGTERM\<close> and the final \<open>process.kill\<close> all throw, and no browser can be
  started. \<open>example_state\<close> has a connected session and both record files; \<open>fresh_state\<close> has
  neither file; \<open>later_state\<close> is a later invocation with a session, a PID record, a downloads
  directory and the port file \<open>23750\<close>.
\<close>

definition example_env :: env where
  "example_env =
     \<lparr>new_URL = plain_URL,
      JSON_parse_schema = (\<lambda>text. Inl (Error ''Unexpected token'')),
      prepareChromeProfile = io_return (),
      initBrowser = io_throw (Error ''Could not find Chrome installation''),
      page_goto = (\<lambda>url waitUntil. io_return ()),
      takeScreenshot = io_return ''agent/browser_screenshots/screenshot.png'',
      stagehand_act = (\<lambda>action. io_return ()),
      zod_inherited = (\<lambda>z key. ThrowsTypeError),
      stagehand_extract = (\<lambda>instruction schema. io_return ''{}''),
      stagehand_observe = (\<lambda>query. io_return ''[]''),
      stagehand_close = Inl (Error ''Target closed''),
      kill_SIGTERM = Inl (Error ''kill EPERM''),
      exitCode_is_null = True,
      kill_SIGKILL = Inr (),
      fetch_version = Inr \<lparr>ok = True,
                             json_webSocketDebuggerUrl = Inr ''ws://127.0.0.1:41000/devtools/browser/1''\<rparr>,
      tempStagehand_init = Inr (),
      tempStagehand_close = Inr (),
      fetch_version_again = Inr (),
      JSON_parse_pid = (\<lambda>text. Inr ''4242''),
      exec_ps_comm = (\<lambda>pid. Inr ''Google Chrome''),
      process_kill = (\<lambda>pid. Inl (Error ''kill ESRCH''))\<rparr>"

definition example_state :: state where
  "example_state =
     \<lparr>stagehandInstance = True, currentPage = True, chromeProcess = True, weStartedChrome = True,
      files = [CDP_PORT_FILE \<mapsto> File ''41000'', pidFilePath \<mapsto> File ''{\"pid\":4242,\"startTime\":1767225600000}'',
               persistentProfileDir \<mapsto> Dir],
      console_error = []\<rparr>"

definition fresh_state :: state where
  "fresh_state =
     \<lparr>stagehandInstance = False, currentPage = False, chromeProcess = False, weStartedChrome = False,
      files = [persistentProfileDir \<mapsto> Dir], console_error = []\<rparr>"

definition later_state :: state where
  "later_state =
     \<lparr>stagehandInstance = True, currentPage = True, chromeProcess = False, weStartedChrome = False,
      files = [CDP_PORT_FILE \<mapsto> File ''23750'',
               pidFilePath \<mapsto> File ''{\"pid\":5151,\"startTime\":1767229200000}'',
               ''agent/downloads'' \<mapsto> Dir, persistentProfileDir \<mapsto> Dir],
      console_error = []\<rparr>"

section \<open>Properties of the blocklist check\<close>

subsection \<open>What \<open>getBlockedDomain\<close> computes\<close>

lemma getBlockedDomain_parsed:
  "URL url = Inr p \<Longrightarrow>
   getBlockedDomain URL blocked url =
     Inr (scan_blocklist (toLowerCase (hostname p)) (toLowerCase (hostname p) @ pathname p) blocked)"
  by (simp add: getBlockedDomain_def getBlockedDomain_try_def and_then_def try_catch_def Let_def)

lemma getBlockedDomain_throw:
  "URL url = Inl e \<Longrightarrow> getBlockedDomain URL blocked url = Inr None"
  by (simp add: getBlockedDomain_def getBlockedDomain_try_def and_then_def try_catch_def)

lemma getBlockedDomain_returns: "\<exists>r. getBlockedDomain URL blocked url = Inr r"
  by (cases "URL url") (simp_all add: getBlockedDomain_parsed getBlockedDomain_throw)

lemma scan_blocklist_find: "scan_blocklist h f ds = find (entry_matches h f) ds"
  by (induction ds) (simp_all add: entry_matches_def)

lemma scan_blocklist_Some_iff:
  "scan_blocklist h f ds = Some d \<longleftrightarrow>
     (\<exists>i < length ds. ds ! i = d \<and> entry_matches h f d \<and> (\<forall>j < i. \<not> entry_matches h f (ds ! j)))"
  unfolding scan_blocklist_find find_Some_iff by auto

lemma scan_blocklist_None_iff:
  "scan_blocklist h f ds = None \<longleftrightarrow> (\<forall>d \<in> set ds. \<not> entry_matches h f d)"
  unfolding scan_blocklist_find find_None_iff by auto

lemma scan_blocklist_mem: "scan_blocklist h f ds = Some d \<Longrightarrow> d \<in> set ds"
  by (induction ds) (auto split: if_splits)

lemma getBlockedDomain_mem:
  "getBlockedDomain URL blocked url = Inr (Some d) \<Longrightarrow> d \<in> set blocked"
  by (cases "URL url") (auto simp: getBlockedDomain_parsed getBlockedDomain_throw dest: scan_blocklist_mem)

lemma BLOCKED_DOMAINS_nonempty_entries: "[] \<notin> set BLOCKED_DOMAINS"
  by (simp add: BLOCKED_DOMAINS_def)


subsection \<open>C2: which entry is returned\<close>

text \<open>
  Claim C2 says: for every URL whose host equals a bare blocklist entry or is a subdomain of
  it, \<open>getBlockedDomain\<close> returns that entry, and for all other URLs it returns none.
  The loop returns the first entry of the list that matches, and a path-scoped entry matches
  by containment in host + path, so both halves fail on the initial blocklist. The host
  \<open>mail.google.com\<close> is a bare entry, yet for \<open>https://mail.google.com/stripe.com/dashboard\<close>
  the earlier entry \<open>stripe.com/dashboard\<close> is returned; and the host \<open>stripe.com\<close> matches
  no bare entry, yet \<open>https://stripe.com/dashboard\<close> is not answered with none.
\<close>

theorem getBlockedDomain_returns_that_entry_counterexample:
  "plain_URL ''https://mail.google.com/stripe.com/dashboard'' =
     Inr \<lparr>hostname = ''mail.google.com'', pathname = ''/stripe.com/dashboard''\<rparr>
   \<and> ''mail.google.com'' \<in> set BLOCKED_DOMAINS
   \<and> bare_match ''mail.google.com'' ''mail.google.com''
   \<and> getBlockedDomain plain_URL BLOCKED_DOMAINS ''https://mail.google.com/stripe.com/dashboard'' =
       Inr (Some ''stripe.com/dashboard'')
   \<and> plain_URL ''https://stripe.com/dashboard'' =
       Inr \<lparr>hostname = ''stripe.com'', pathname = ''/dashboard''\<rparr>
   \<and> filter (bare_match ''stripe.com'') BLOCKED_DOMAINS = []
   \<and> getBlockedDomain plain_URL BLOCKED_DOMAINS ''https://stripe.com/dashboard'' =
       Inr (Some ''stripe.com/dashboard'')"
  by code_simp


text \<open>
  C2 as amended: for a URL that parses, \<open>getBlockedDomain\<close> returns the first entry of the
  blocklist, in list order, that matches it (a bare entry matches a host that equals it or ends
  with \<open>.\<close> + entry, a path-scoped entry matches when host + path contains it); it returns none
  exactly when no entry matches; so a URL whose host equals a bare entry or is a subdomain of it
  is always answered with some entry.
\<close>

theorem getBlockedDomain_first_match:
  assumes "URL url = Inr p"
  shows "(getBlockedDomain URL blocked url = Inr (Some d) \<longleftrightarrow>
            (\<exists>i < length blocked. blocked ! i = d
               \<and> entry_matches (toLowerCase (hostname p)) (toLowerCase (hostname p) @ pathname p) d
               \<and> (\<forall>j < i. \<not> entry_matches (toLowerCase (hostname p))
                                 (toLowerCase (hostname p) @ pathname p) (blocked ! j))))
       \<and> (getBlockedDomain URL blocked url = Inr None \<longleftrightarrow>
            (\<forall>e \<in> set blocked. \<not> entry_matches (toLowerCase (hostname p))
                                 (toLowerCase (hostname p) @ pathname p) e))
       \<and> (\<forall>e \<in> set blocked. bare_match (toLowerCase (hostname p)) e \<longrightarrow>
            (\<exists>d'. getBlockedDomain URL blocked url = Inr (Some d')))"
proof (intro conjI)
  let ?h = "toLowerCase (hostname p)"
  let ?f = "toLowerCase (hostname p) @ pathname p"
  have eq: "getBlockedDomain URL blocked url = Inr (scan_blocklist ?h ?f blocked)"
    using assms by (rule getBlockedDomain_parsed)
  show "getBlockedDomain URL blocked url = Inr (Some d) \<longleftrightarrow>
      (\<exists>i < length blocked. blocked ! i = d \<and> entry_matches ?h ?f d
          \<and> (\<forall>j < i. \<not> entry_matches ?h ?f (blocked ! j)))"
    by (simp add: eq scan_blocklist_Some_iff)
  show none: "getBlockedDomain URL blocked url = Inr None \<longleftrightarrow>
      (\<forall>e \<in> set blocked. \<not> entry_matches ?h ?f e)"
    by (simp add: eq scan_blocklist_None_iff)
  show "\<forall>e \<in> set blocked. bare_match ?h e \<longrightarrow>
      (\<exists>d'. getBlockedDomain URL blocked url = Inr (Some d'))"
  proof (intro ballI impI)
    fix e assume "e \<in> set blocked" and "bare_match ?h e"
    then have "\<exists>e \<in> set blocked. entry_matches ?h ?f e"
      by (auto simp: bare_match_def entry_matches_def)
    then have "scan_blocklist ?h ?f blocked \<noteq> None"
      by (simp add: scan_blocklist_None_iff)
    then show "\<exists>d'. getBlockedDomain URL blocked url = Inr (Some d')"
      by (simp add: eq)
  qed
qed


theorem getBlockedDomain_first_match_witness:
  "getBlockedDomain plain_URL BLOCKED_DOMAINS ''https://www.citibank.com/accounts'' =
     Inr (Some ''citibank.com'')
   \<and> getBlockedDomain plain_URL BLOCKED_DOMAINS ''https://stripe.com/docs'' = Inr None"
proof -
  have p1: "plain_URL ''https://www.citibank.com/accounts'' =
      Inr \<lparr>hostname = ''www.citibank.com'', pathname = ''/accounts''\<rparr>"
    by code_simp
  have p2: "plain_URL ''https://stripe.com/docs'' =
      Inr \<lparr>hostname = ''stripe.com'', pathname = ''/docs''\<rparr>"
    by code_simp
  have m: "\<exists>i < length BLOCKED_DOMAINS. BLOCKED_DOMAINS ! i = ''citibank.com''
      \<and> entry_matches ''www.citibank.com'' ''www.citibank.com/accounts'' ''citibank.com''
      \<and> (\<forall>j < i. \<not> entry_matches ''www.citibank.com'' ''www.citibank.com/accounts''
                      (BLOCKED_DOMAINS ! j))"
  proof (intro exI[of _ 4] conjI)
    show "\<forall>j < 4. \<not> entry_matches ''www.citibank.com'' ''www.citibank.com/accounts''
                      (BLOCKED_DOMAINS ! j)"
    proof (intro allI impI)
      fix j :: nat assume "j < 4"
      then have "j = 0 \<or> j = 1 \<or> j = 2 \<or> j = 3" by arith
      moreover have "\<not> entry_matches ''www.citibank.com'' ''www.citibank.com/accounts'' (BLOCKED_DOMAINS ! 0)"
        "\<not> entry_matches ''www.citibank.com'' ''www.citibank.com/accounts'' (BLOCKED_DOMAINS ! 1)"
        "\<not> entry_matches ''www.citibank.com'' ''www.citibank.com/accounts'' (BLOCKED_DOMAINS ! 2)"
        "\<not> entry_matches ''www.citibank.com'' ''www.citibank.com/accounts'' (BLOCKED_DOMAINS ! 3)"
        by code_simp+
      ultimately show "\<not> entry_matches ''www.citibank.com'' ''www.citibank.com/accounts''
                      (BLOCKED_DOMAINS ! j)" by blast
    qed
  qed code_simp+
  have n: "\<forall>e \<in> set BLOCKED_DOMAINS. \<not> entry_matches ''stripe.com'' ''stripe.com/docs'' e"
    by code_simp
  have l1: "toLowerCase ''www.citibank.com'' = ''www.citibank.com''" by code_simp
  have l2: "toLowerCase ''stripe.com'' = ''stripe.com''" by code_simp
  from getBlockedDomain_first_match [where URL = plain_URL
           and url = "''https://www.citibank.com/accounts''" and blocked = BLOCKED_DOMAINS
           and d = "''citibank.com''", OF p1]
       getBlockedDomain_first_match [where URL = plain_URL
           and url = "''https://stripe.com/docs''" and blocked = BLOCKED_DOMAINS, OF p2]
       m n
  show ?thesis by (simp add: l1 l2)
qed


subsection \<open>C3: a bare entry and its subdomains\<close>

text \<open>
  Claim C3 says: with only a parent domain such as \<open>google.com\<close> in the blocklist,
  \<open>getBlockedDomain\<close> on a URL whose host is a subdomain of it (\<open>accounts.google.com\<close>)
  returns none. The suffix test \<open>hostname.endsWith('.' + domain)\<close> makes it return the entry.
\<close>

theorem bare_entry_spares_subdomain_counterexample:
  "getBlockedDomain plain_URL [''google.com''] ''https://accounts.google.com'' =
     Inr (Some ''google.com'')"
  by code_simp


text \<open>
  C3 as amended: a bare entry by itself blocks every proper subdomain. With only that entry in
  the blocklist, \<open>getBlockedDomain\<close> on a URL whose lowercased host is \<open>sub.entry\<close> returns
  the entry.
\<close>

theorem bare_entry_blocks_subdomain:
  assumes "URL url = Inr p"
    and "\<not> str_includes entry ''/''"
    and "toLowerCase (hostname p) = sub @ ''.'' @ entry"
  shows "getBlockedDomain URL [entry] url = Inr (Some entry)"
  using assms by (simp add: getBlockedDomain_parsed endsWith_def suffix_def)

theorem bare_entry_blocks_subdomain_witness:
  "plain_URL ''https://accounts.google.com'' =
      Inr \<lparr>hostname = ''accounts.google.com'', pathname = ''/''\<rparr>
   \<and> \<not> str_includes ''google.com'' ''/''
   \<and> getBlockedDomain plain_URL [''google.com''] ''https://accounts.google.com'' =
      Inr (Some ''google.com'')"
proof -
  have p: "plain_URL ''https://accounts.google.com'' =
      Inr \<lparr>hostname = ''accounts.google.com'', pathname = ''/''\<rparr>"
    by code_simp
  have b: "\<not> str_includes ''google.com'' ''/''" by code_simp
  have l: "toLowerCase (hostname \<lparr>hostname = ''accounts.google.com'', pathname = ''/''\<rparr>) =
      ''accounts'' @ ''.'' @ ''google.com''" by code_simp
  from bare_entry_blocks_subdomain [where URL = plain_URL
           and url = "''https://accounts.google.com''", OF p b l] p b
  show ?thesis by simp
qed


subsection \<open>C7: unparseable input\<close>

text \<open>
  Claim C7: on any input that fails URL parsing, \<open>getBlockedDomain\<close> returns none (the check
  fails open) and never throws to its caller. The parser's exception is the \<open>Inl\<close> of
  \<open>URL url\<close>; the result is the normal return \<open>Inr None\<close>.
\<close>

theorem getBlockedDomain_fails_open:
  assumes "URL url = Inl e"
  shows "getBlockedDomain URL blocked url = Inr None"
  using assms by (rule getBlockedDomain_throw)

theorem getBlockedDomain_fails_open_witness:
  "plain_URL ''/account/login'' = Inl (Error ''Invalid URL'')
   \<and> getBlockedDomain plain_URL BLOCKED_DOMAINS ''/account/login'' = Inr None"
proof -
  have p: "plain_URL ''/account/login'' = Inl (Error ''Invalid URL'')" by code_simp
  from getBlockedDomain_fails_open [where URL = plain_URL and url = "''/account/login''", OF p] p
  show ?thesis by simp
qed


section \<open>Properties of the action check\<close>

subsection \<open>What the URL pattern matches\<close>

lemma toLowerCase_prefix_split:
  "prefix xs (toLowerCase s) \<Longrightarrow> length xs = n \<Longrightarrow> toLowerCase s = xs @ toLowerCase (drop n s)"
  by (metis append_eq_conv_conj drop_map prefix_def toLowerCase_def)

lemma toLowerCase_append: "toLowerCase (a @ b) = toLowerCase a @ toLowerCase b"
  by (simp add: toLowerCase_def)

lemma toLowerCase_take: "toLowerCase (take n s) = take n (toLowerCase s)"
  by (simp add: toLowerCase_def take_map)

lemma toLowerCase_drop: "toLowerCase (drop n s) = drop n (toLowerCase s)"
  by (simp add: toLowerCase_def drop_map)

lemma take_past_prefix: "length xs = n \<Longrightarrow> take (n + k) (xs @ ys) = xs @ take k ys"
  by simp

lemma lower_colon_slashes: "toLowerCase ''://'' = ''://''"
  by (simp add: toLowerCase_def lower_char_def)

lemma match_here_scheme:
  assumes "match_here s = Some m"
  shows "prefix m s \<and> m \<noteq> []
     \<and> (startsWith (toLowerCase m) ''http://'' \<or> startsWith (toLowerCase m) ''https://'')"
proof -
  from assms have h: "prefix ''http'' (toLowerCase s)"
    by (auto simp: match_here_def startsWith_def split: if_splits)
  define n :: nat where "n = (if startsWith (toLowerCase (drop 4 s)) ''s'' then 5 else 4)"
  define k where "k = length (takeWhile url_char (drop 3 (drop n s)))"
  from assms h have t: "prefix ''://'' (drop n s)" and k: "0 < k" and m: "m = take (n + 3 + k) s"
    by (auto simp: match_here_def startsWith_def Let_def n_def k_def split: if_splits)
  from t have tl: "prefix ''://'' (toLowerCase (drop n s))"
    using lower_colon_slashes by (metis map_mono_prefix toLowerCase_def)
  have s4: "toLowerCase s = ''http'' @ toLowerCase (drop 4 s)"
    using toLowerCase_prefix_split [OF h, where n = 4] by simp
  have pm: "prefix m s" by (simp add: m take_is_prefix)
  have ne: "m \<noteq> []"
  proof
    assume "m = []"
    with m have "s = []" by (simp add: n_def split: if_splits)
    with h show False by (simp add: toLowerCase_def)
  qed
  show ?thesis
  proof (cases "startsWith (toLowerCase (drop 4 s)) ''s''")
    case True
    then have n5: "n = 5" by (simp add: n_def)
    from True have "toLowerCase (drop 4 s) = ''s'' @ toLowerCase (drop 1 (drop 4 s))"
      using toLowerCase_prefix_split [of "''s''" "drop 4 s" 1] by (simp add: startsWith_def)
    then have s5: "toLowerCase s = ''https'' @ toLowerCase (drop 5 s)"
      using s4 by simp
    from tl n5 have "toLowerCase (drop 5 s) = ''://'' @ toLowerCase (drop 3 (drop 5 s))"
      using toLowerCase_prefix_split [of "''://''" "drop 5 s" 3] by simp
    with s5 have "toLowerCase s = ''https://'' @ toLowerCase (drop 8 s)" by simp
    then have "take (8 + k) (toLowerCase s) = ''https://'' @ take k (toLowerCase (drop 8 s))"
      using take_past_prefix [of "''https://''" 8 k "toLowerCase (drop 8 s)"] by simp
    then have "toLowerCase m = ''https://'' @ take k (toLowerCase (drop 8 s))"
      by (simp add: m n5 toLowerCase_take)
    then show ?thesis using pm ne by (simp add: startsWith_def)
  next
    case False
    then have n4: "n = 4" by (simp add: n_def)
    from tl n4 have "toLowerCase (drop 4 s) = ''://'' @ toLowerCase (drop 3 (drop 4 s))"
      using toLowerCase_prefix_split [of "''://''" "drop 4 s" 3] by simp
    with s4 have "toLowerCase s = ''http://'' @ toLowerCase (drop 7 s)" by simp
    then have "take (7 + k) (toLowerCase s) = ''http://'' @ take k (toLowerCase (drop 7 s))"
      using take_past_prefix [of "''http://''" 7 k "toLowerCase (drop 7 s)"] by simp
    then have "toLowerCase m = ''http://'' @ take k (toLowerCase (drop 7 s))"
      by (simp add: m n4 toLowerCase_take)
    then show ?thesis using pm ne by (simp add: startsWith_def)
  qed
qed

lemma match_all_member:
  "u \<in> set (match_all s) \<Longrightarrow>
     sublist u s \<and> (startsWith (toLowerCase u) ''http://'' \<or> startsWith (toLowerCase u) ''https://'')"
proof (induction s rule: match_all.induct)
  case (1 s)
  show ?case
  proof (cases "s = []")
    case True
    with "1.prems" show ?thesis by (subst (asm) match_all.simps) simp
  next
    case False
    show ?thesis
    proof (cases "match_here s")
      case None
      with False "1.prems" have "u \<in> set (match_all (tl s))"
        by (subst (asm) match_all.simps) simp
      with "1.IH"(1) [OF False None] have
        "sublist u (tl s) \<and> (startsWith (toLowerCase u) ''http://'' \<or> startsWith (toLowerCase u) ''https://'')"
        by simp
      moreover have "sublist (tl s) s" using False by (metis sublist_drop drop_Suc drop0)
      ultimately show ?thesis by (meson sublist_order.order.trans)
    next
      case (Some m)
      with False "1.prems" have "u = m \<or> u \<in> set (match_all (drop (max 1 (length m)) s))"
        by (subst (asm) match_all.simps) simp
      then show ?thesis
      proof
        assume "u = m"
        with match_here_scheme [OF Some] show ?thesis by auto
      next
        assume "u \<in> set (match_all (drop (max 1 (length m)) s))"
        with "1.IH"(2) [OF False Some] have
          "sublist u (drop (max 1 (length m)) s)
            \<and> (startsWith (toLowerCase u) ''http://'' \<or> startsWith (toLowerCase u) ''https://'')"
          by simp
        then show ?thesis by (meson sublist_drop sublist_order.order.trans)
      qed
    qed
  qed
qed

lemma match_all_needs_scheme:
  assumes "\<not> str_includes (toLowerCase action) ''http://''"
    and "\<not> str_includes (toLowerCase action) ''https://''"
  shows "match_all action = []"
proof (rule ccontr)
  assume "match_all action \<noteq> []"
  then obtain u where u: "u \<in> set (match_all action)" by (cases "match_all action") auto
  from match_all_member [OF u] have sub: "sublist (toLowerCase u) (toLowerCase action)"
    and sch: "prefix ''http://'' (toLowerCase u) \<or> prefix ''https://'' (toLowerCase u)"
    by (auto simp: toLowerCase_def startsWith_def intro: map_mono_sublist)
  from sch sub have "sublist ''http://'' (toLowerCase action) \<or> sublist ''https://'' (toLowerCase action)"
    by (meson prefix_imp_sublist sublist_order.order.trans)
  with assms show False by (simp add: str_includes_def)
qed

lemma scan_urls_returns: "\<exists>r. scan_urls URL blocked urls = Inr r"
proof (induction urls)
  case Nil
  show ?case by simp
next
  case (Cons u us)
  obtain b where b: "getBlockedDomain URL blocked u = Inr b"
    using getBlockedDomain_returns by blast
  with Cons show ?case by (simp add: and_then_def)
qed

lemma scan_urls_step:
  "getBlockedDomain URL blocked u = Inr b \<Longrightarrow>
   scan_urls URL blocked (u # us) = (if truthy b then Inr b else scan_urls URL blocked us)"
  by (simp add: and_then_def)

lemma truthy_result:
  assumes "[] \<notin> set blocked" and "getBlockedDomain URL blocked u = Inr b"
  shows "truthy b \<longleftrightarrow> b \<noteq> None"
proof (cases b)
  case None
  then show ?thesis by simp
next
  case (Some d)
  with assms(2) have "d \<in> set blocked" by (simp add: getBlockedDomain_mem)
  with assms(1) have "d \<noteq> []" by auto
  with Some show ?thesis by simp
qed

lemma scan_urls_find:
  assumes "[] \<notin> set blocked"
  shows "scan_urls URL blocked us =
     (case find (\<lambda>u. getBlockedDomain URL blocked u \<noteq> Inr None) us of
        None \<Rightarrow> Inr None
      | Some u \<Rightarrow> getBlockedDomain URL blocked u)"
proof (induction us)
  case Nil
  show ?case by simp
next
  case (Cons u us)
  obtain b where b: "getBlockedDomain URL blocked u = Inr b"
    using getBlockedDomain_returns by blast
  from truthy_result [OF assms b] have t: "truthy b \<longleftrightarrow> b \<noteq> None" .
  show ?case using Cons b t by (simp add: scan_urls_step [OF b] del: scan_urls.simps)
qed


subsection \<open>C8: the first blocked URL of the text\<close>

text \<open>
  Claim C8: for every action text, \<open>actionReferencesBlockedDomain\<close> returns a blocked domain
  if and only if the text contains an embedded URL (a match of the URL pattern) for which
  \<open>getBlockedDomain\<close> returns a domain, and the domain returned is the one \<open>getBlockedDomain\<close>
  returns for the first such URL taken alone; otherwise it returns none. The blocklist has no
  empty entry (the initial one has none), so that every domain found is a truthy string.
\<close>

theorem actionReferencesBlockedDomain_first_blocked_url:
  assumes "[] \<notin> set blocked"
  shows "(actionReferencesBlockedDomain URL blocked action = Inr (Some d) \<longleftrightarrow>
            (\<exists>i < length (match_all action).
               getBlockedDomain URL blocked (match_all action ! i) = Inr (Some d)
               \<and> (\<forall>j < i. getBlockedDomain URL blocked (match_all action ! j) = Inr None)))
       \<and> (actionReferencesBlockedDomain URL blocked action = Inr None \<longleftrightarrow>
            (\<forall>u \<in> set (match_all action). getBlockedDomain URL blocked u = Inr None))
       \<and> (\<exists>r. actionReferencesBlockedDomain URL blocked action = Inr r)"
proof -
  have eq: "actionReferencesBlockedDomain URL blocked action = scan_urls URL blocked (match_all action)"
    by (simp add: actionReferencesBlockedDomain_def match_urlPattern_def Let_def)
  let ?P = "\<lambda>u. getBlockedDomain URL blocked u \<noteq> Inr None"
  let ?us = "match_all action"
  have some: "scan_urls URL blocked ?us = Inr (Some d) \<longleftrightarrow>
      (\<exists>i < length ?us. getBlockedDomain URL blocked (?us ! i) = Inr (Some d)
         \<and> (\<forall>j < i. getBlockedDomain URL blocked (?us ! j) = Inr None))"
  proof (cases "find ?P ?us")
    case None
    then have "\<forall>u \<in> set ?us. getBlockedDomain URL blocked u = Inr None"
      by (simp add: find_None_iff)
    then have "\<not> (\<exists>i < length ?us. getBlockedDomain URL blocked (?us ! i) = Inr (Some d))"
      by auto
    with None show ?thesis by (auto simp: scan_urls_find [OF assms])
  next
    case (Some u)
    then obtain i where i: "i < length ?us" "?P (?us ! i)" "u = ?us ! i" "\<forall>j < i. \<not> ?P (?us ! j)"
      unfolding find_Some_iff by blast
    have s: "scan_urls URL blocked ?us = getBlockedDomain URL blocked (?us ! i)"
      using Some i(3) by (simp add: scan_urls_find [OF assms])
    show ?thesis
    proof
      assume "scan_urls URL blocked ?us = Inr (Some d)"
      with s i show "\<exists>i < length ?us. getBlockedDomain URL blocked (?us ! i) = Inr (Some d)
         \<and> (\<forall>j < i. getBlockedDomain URL blocked (?us ! j) = Inr None)"
        by (intro exI[of _ i]) simp
    next
      assume "\<exists>k < length ?us. getBlockedDomain URL blocked (?us ! k) = Inr (Some d)
         \<and> (\<forall>j < k. getBlockedDomain URL blocked (?us ! j) = Inr None)"
      then obtain k where k: "k < length ?us" "getBlockedDomain URL blocked (?us ! k) = Inr (Some d)"
        "\<forall>j < k. getBlockedDomain URL blocked (?us ! j) = Inr None" by blast
      have "\<not> k < i" using i(4) k(2) by auto
      moreover have "\<not> i < k" using i(2) k(3) by auto
      ultimately have "k = i" by arith
      with s k(2) show "scan_urls URL blocked ?us = Inr (Some d)" by simp
    qed
  qed
  have none: "scan_urls URL blocked ?us = Inr None \<longleftrightarrow>
      (\<forall>u \<in> set ?us. getBlockedDomain URL blocked u = Inr None)"
  proof (cases "find ?P ?us")
    case None
    then have "scan_urls URL blocked ?us = Inr None"
      by (simp add: scan_urls_find [OF assms])
    moreover from None have "\<forall>u \<in> set ?us. getBlockedDomain URL blocked u = Inr None"
      by (simp add: find_None_iff)
    ultimately show ?thesis by simp
  next
    case (Some u)
    then have "u \<in> set ?us" "?P u" unfolding find_Some_iff by auto
    with Some show ?thesis by (auto simp: scan_urls_find [OF assms])
  qed
  from some none scan_urls_returns [of URL blocked ?us] show ?thesis
    unfolding eq by blast
qed

theorem actionReferencesBlockedDomain_first_blocked_url_witness:
  "[] \<notin> set BLOCKED_DOMAINS
   \<and> match_all ''open https://example.com then https://Chase.com/login and https://paypal.com'' =
       [''https://example.com'', ''https://Chase.com/login'', ''https://paypal.com'']
   \<and> getBlockedDomain plain_URL BLOCKED_DOMAINS ''https://example.com'' = Inr None
   \<and> getBlockedDomain plain_URL BLOCKED_DOMAINS ''https://Chase.com/login'' = Inr (Some ''chase.com'')
   \<and> actionReferencesBlockedDomain plain_URL BLOCKED_DOMAINS
        ''open https://example.com then https://Chase.com/login and https://paypal.com'' =
       Inr (Some ''chase.com'')"
proof -
  let ?a = "''open https://example.com then https://Chase.com/login and https://paypal.com''"
  have m: "match_all ?a = [''https://example.com'', ''https://Chase.com/login'', ''https://paypal.com'']"
    by code_simp
  have g0: "getBlockedDomain plain_URL BLOCKED_DOMAINS ''https://example.com'' = Inr None"
    by code_simp
  have g1: "getBlockedDomain plain_URL BLOCKED_DOMAINS ''https://Chase.com/login'' = Inr (Some ''chase.com'')"
    by code_simp
  have ex: "\<exists>i < length (match_all ?a).
      getBlockedDomain plain_URL BLOCKED_DOMAINS (match_all ?a ! i) = Inr (Some ''chase.com'')
      \<and> (\<forall>j < i. getBlockedDomain plain_URL BLOCKED_DOMAINS (match_all ?a ! j) = Inr None)"
    unfolding m using g0 g1 by (intro exI[of _ 1]) simp
  from actionReferencesBlockedDomain_first_blocked_url
         [OF BLOCKED_DOMAINS_nonempty_entries, of plain_URL ?a "''chase.com''"] ex
  have "actionReferencesBlockedDomain plain_URL BLOCKED_DOMAINS ?a = Inr (Some ''chase.com'')"
    by blast
  with m g0 g1 BLOCKED_DOMAINS_nonempty_entries show ?thesis by simp
qed


subsection \<open>C10: text without a scheme\<close>

text \<open>
  Claim C10: \<open>actionReferencesBlockedDomain\<close> only inspects substrings that begin with
  \<open>http://\<close> or \<open>https://\<close> (in any case): every match of the pattern is such a substring
  of the action, and for an action that contains neither scheme the result is none, whatever
  the blocklist and the parser. An action that names a blocked domain without a scheme, like
  \<open>go to chase.com and log in\<close>, is therefore not blocked.
\<close>

theorem actionReferencesBlockedDomain_needs_scheme:
  "(\<forall>u \<in> set (match_all action).
       sublist u action
       \<and> (startsWith (toLowerCase u) ''http://'' \<or> startsWith (toLowerCase u) ''https://''))
   \<and> (\<not> str_includes (toLowerCase action) ''http://''
        \<and> \<not> str_includes (toLowerCase action) ''https://''
      \<longrightarrow> actionReferencesBlockedDomain URL blocked action = Inr None)"
  using match_all_member match_all_needs_scheme
  by (auto simp: actionReferencesBlockedDomain_def match_urlPattern_def)

theorem actionReferencesBlockedDomain_needs_scheme_witness:
  "str_includes ''go to chase.com and log in'' ''chase.com''
   \<and> \<not> str_includes (toLowerCase ''go to chase.com and log in'') ''http://''
   \<and> \<not> str_includes (toLowerCase ''go to chase.com and log in'') ''https://''
   \<and> actionReferencesBlockedDomain plain_URL BLOCKED_DOMAINS ''go to chase.com and log in'' = Inr None"
proof -
  have a: "str_includes ''go to chase.com and log in'' ''chase.com''" by code_simp
  have b: "\<not> str_includes (toLowerCase ''go to chase.com and log in'') ''http://''" by code_simp
  have c: "\<not> str_includes (toLowerCase ''go to chase.com and log in'') ''https://''" by code_simp
  from actionReferencesBlockedDomain_needs_scheme
         [of "''go to chase.com and log in''" plain_URL BLOCKED_DOMAINS] a b c
  show ?thesis by blast
qed

section \<open>Properties of the gate in \<open>navigate\<close> and \<open>act\<close>\<close>

lemma scan_urls_truthy:
  "scan_urls URL blocked urls = Inr b \<Longrightarrow> b = None \<or> truthy b"
proof (induction urls)
  case Nil
  then show ?case by simp
next
  case (Cons u us)
  obtain b0 where b0: "getBlockedDomain URL blocked u = Inr b0"
    using getBlockedDomain_returns by blast
  with Cons show ?case by (cases "truthy b0") (auto simp: scan_urls_step [OF b0] simp del: scan_urls.simps)
qed

lemma actionReferencesBlockedDomain_truthy:
  "actionReferencesBlockedDomain URL blocked action = Inr (Some d) \<Longrightarrow> d \<noteq> []"
  by (auto simp: actionReferencesBlockedDomain_def split: option.splits dest: scan_urls_truthy)


text \<open>
  Claim C1: \<open>navigate\<close> and \<open>act\<close> evaluate their blocklist check before \<open>initBrowser\<close> or
  any other browser call, and when the check finds a blocked domain they return the structured
  failure that names it, with no side effect. The state returned is the state given, for every
  environment, whatever its \<open>initBrowser\<close>, page and engine would have done: none of them ran.
  For \<open>navigate "https://chase.com/login"\<close> the error text is the one of the specification, and
  \<open>main\<close> prints the result and exits with code 0.
\<close>

theorem blocked_short_circuit:
  "(getBlockedDomain (new_URL env) BLOCKED_DOMAINS url = Inr (Some d) \<longrightarrow>
      navigate env url s =
        (Inr (failure (''BLOCKED: Navigation to '' @ [CHR 0x22] @ d @ [CHR 0x22]
                         @ '' is restricted by security policy.'')), s))
   \<and> (actionReferencesBlockedDomain (new_URL env) BLOCKED_DOMAINS action = Inr (Some d) \<longrightarrow>
      act env action s =
        (Inr (failure (''BLOCKED: Action references restricted domain '' @ [CHR 0x22] @ d
                         @ [CHR 0x22] @ ''.'')), s))
   \<and> (new_URL env ''https://chase.com/login'' = Inr \<lparr>hostname = ''chase.com'', pathname = ''/login''\<rparr>
        \<and> prepareChromeProfile env s0 = (Inr (), s) \<longrightarrow>
      main env [''navigate'', ''https://chase.com/login''] s0 =
        (Exit 0 (failure (''BLOCKED: Navigation to '' @ [CHR 0x22] @ ''chase.com'' @ [CHR 0x22]
                            @ '' is restricted by security policy.'')), s))"
proof (intro conjI impI)
  assume g: "getBlockedDomain (new_URL env) BLOCKED_DOMAINS url = Inr (Some d)"
  then have "d \<in> set BLOCKED_DOMAINS" by (rule getBlockedDomain_mem)
  with BLOCKED_DOMAINS_nonempty_entries have "d \<noteq> []" by auto
  with g show "navigate env url s =
        (Inr (failure (''BLOCKED: Navigation to '' @ [CHR 0x22] @ d @ [CHR 0x22]
                         @ '' is restricted by security policy.'')), s)"
    by (simp add: navigate_def io_bind_def io_lift_def io_return_def quoted_def)
next
  assume a: "actionReferencesBlockedDomain (new_URL env) BLOCKED_DOMAINS action = Inr (Some d)"
  then have "d \<noteq> []" by (rule actionReferencesBlockedDomain_truthy)
  with a show "act env action s =
        (Inr (failure (''BLOCKED: Action references restricted domain '' @ [CHR 0x22] @ d
                         @ [CHR 0x22] @ ''.'')), s)"
    by (simp add: act_def io_bind_def io_lift_def io_return_def quoted_def)
next
  assume h: "new_URL env ''https://chase.com/login'' = Inr \<lparr>hostname = ''chase.com'', pathname = ''/login''\<rparr>
        \<and> prepareChromeProfile env s0 = (Inr (), s)"
  have l: "toLowerCase ''chase.com'' = ''chase.com''" by code_simp
  have "scan_blocklist ''chase.com'' (''chase.com'' @ ''/login'') BLOCKED_DOMAINS = Some ''chase.com''"
    by code_simp
  with h l have g: "getBlockedDomain (new_URL env) BLOCKED_DOMAINS ''https://chase.com/login'' =
      Inr (Some ''chase.com'')"
    by (simp add: getBlockedDomain_parsed [where url = "''https://chase.com/login''"])
  then have "navigate env ''https://chase.com/login'' s =
        (Inr (failure (''BLOCKED: Navigation to '' @ [CHR 0x22] @ ''chase.com'' @ [CHR 0x22]
                         @ '' is restricted by security policy.'')), s)"
    by (simp add: navigate_def io_bind_def io_lift_def io_return_def quoted_def)
  with h show "main env [''navigate'', ''https://chase.com/login''] s0 =
        (Exit 0 (failure (''BLOCKED: Navigation to '' @ [CHR 0x22] @ ''chase.com'' @ [CHR 0x22]
                            @ '' is restricted by security policy.'')), s)"
    by (simp add: main_def main_switch_def)
qed

theorem blocked_short_circuit_witness:
  "getBlockedDomain (new_URL example_env) BLOCKED_DOMAINS ''https://chase.com/login'' = Inr (Some ''chase.com'')
   \<and> navigate example_env ''https://chase.com/login'' example_state =
       (Inr (failure ''BLOCKED: Navigation to \"chase.com\" is restricted by security policy.''), example_state)
   \<and> actionReferencesBlockedDomain (new_URL example_env) BLOCKED_DOMAINS
        ''go to https://chase.com and log in'' = Inr (Some ''chase.com'')
   \<and> act example_env ''go to https://chase.com and log in'' example_state =
       (Inr (failure ''BLOCKED: Action references restricted domain \"chase.com\".''), example_state)
   \<and> new_URL example_env ''https://chase.com/login'' = Inr \<lparr>hostname = ''chase.com'', pathname = ''/login''\<rparr>
   \<and> prepareChromeProfile example_env example_state = (Inr (), example_state)
   \<and> main example_env [''navigate'', ''https://chase.com/login''] example_state =
       (Exit 0 (failure ''BLOCKED: Navigation to \"chase.com\" is restricted by security policy.''), example_state)"
proof -
  have u: "new_URL example_env = plain_URL" by (simp add: example_env_def)
  have g: "getBlockedDomain (new_URL example_env) BLOCKED_DOMAINS ''https://chase.com/login'' = Inr (Some ''chase.com'')"
    unfolding u by code_simp
  have a: "actionReferencesBlockedDomain (new_URL example_env) BLOCKED_DOMAINS
        ''go to https://chase.com and log in'' = Inr (Some ''chase.com'')"
    unfolding u by code_simp
  have p: "new_URL example_env ''https://chase.com/login'' = Inr \<lparr>hostname = ''chase.com'', pathname = ''/login''\<rparr>"
    unfolding u by code_simp
  have q: "prepareChromeProfile example_env example_state = (Inr (), example_state)"
    by (simp add: example_env_def io_return_def)
  from blocked_short_circuit [of example_env "''https://chase.com/login''" "''chase.com''" example_state
         "''go to https://chase.com and log in''" example_state] g a p q
  show ?thesis by simp
qed


section \<open>Properties of the schema of \<open>extract\<close>\<close>

lemma schema_loop_step:
  "schema_loop inherited ((key, ty) # rest) (zodSchema, hasValidTypes) =
     (case recognized ty of
        Some z \<Rightarrow> and_then (assign_field inherited key z zodSchema)
                    (\<lambda>obj. schema_loop inherited rest (obj, hasValidTypes))
      | None \<Rightarrow> schema_loop inherited rest (zodSchema, False))"
  by (simp add: recognized_def)

lemma schema_loop_flag:
  "schema_loop inherited entries (zodSchema, hasValidTypes) = Inr (obj, valid) \<Longrightarrow>
     valid = (hasValidTypes \<and> (\<forall>(key, ty) \<in> set entries. recognized ty \<noteq> None))"
proof (induction entries arbitrary: zodSchema hasValidTypes)
  case Nil
  then show ?case by simp
next
  case (Cons e entries)
  obtain key ty where e: "e = (key, ty)" by (cases e)
  show ?case
  proof (cases "recognized ty")
    case None
    with Cons.prems have "schema_loop inherited entries (zodSchema, False) = Inr (obj, valid)"
      unfolding e schema_loop_step by simp
    from Cons.IH [OF this] None show ?thesis by (simp add: e)
  next
    case (Some z)
    with Cons.prems obtain z' where
      "schema_loop inherited entries (z', hasValidTypes) = Inr (obj, valid)"
      unfolding e schema_loop_step by (auto simp: and_then_def split: sum.splits)
    from Cons.IH [OF this] Some show ?thesis by (simp add: e)
  qed
qed

lemma assign_field_plain:
  assumes "prototype obj = None" and "key \<noteq> ''__proto__''"
  shows "assign_field inherited key v obj = Inr (obj\<lparr>own_fields := AList.update key v (own_fields obj)\<rparr>)"
  using assms by (simp add: assign_field_def)

lemma schema_loop_fields:
  assumes "\<forall>(key, ty) \<in> set entries. recognized ty \<noteq> None"
    and "''__proto__'' \<notin> fst ` set entries"
    and "prototype zodSchema = None"
  shows "\<exists>obj. schema_loop inherited entries (zodSchema, hasValidTypes) = Inr (obj, hasValidTypes)
     \<and> prototype obj = None
     \<and> (\<forall>k. map_of (own_fields obj) k =
           (case map_of (rev entries) k of
              Some ty \<Rightarrow> recognized ty
            | None \<Rightarrow> map_of (own_fields zodSchema) k))"
  using assms
proof (induction entries arbitrary: zodSchema)
  case Nil
  show ?case using Nil.prems by simp
next
  case (Cons e entries)
  obtain key ty where e: "e = (key, ty)" by (cases e)
  from Cons.prems(1) e obtain z where z: "recognized ty = Some z" by auto
  from Cons.prems(2) e have key: "key \<noteq> ''__proto__''" by auto
  let ?next = "zodSchema\<lparr>own_fields := AList.update key z (own_fields zodSchema)\<rparr>"
  have a: "assign_field inherited key z zodSchema = Inr ?next"
    using Cons.prems(3) key by (rule assign_field_plain)
  have rest: "\<forall>(key, ty) \<in> set entries. recognized ty \<noteq> None"
    "''__proto__'' \<notin> fst ` set entries" "prototype ?next = None"
    using Cons.prems by auto
  from Cons.IH [OF rest] obtain obj where obj:
    "schema_loop inherited entries (?next, hasValidTypes) = Inr (obj, hasValidTypes)"
    "prototype obj = None"
    "\<forall>k. map_of (own_fields obj) k =
           (case map_of (rev entries) k of
              Some ty \<Rightarrow> recognized ty
            | None \<Rightarrow> map_of (own_fields ?next) k)"
    by blast
  have run: "schema_loop inherited (e # entries) (zodSchema, hasValidTypes) = Inr (obj, hasValidTypes)"
    unfolding e schema_loop_step using z a obj(1) by (simp add: and_then_def)
  have fields: "\<forall>k. map_of (own_fields obj) k =
           (case map_of (rev (e # entries)) k of
              Some ty \<Rightarrow> recognized ty
            | None \<Rightarrow> map_of (own_fields zodSchema) k)"
  proof
    fix k
    show "map_of (own_fields obj) k =
           (case map_of (rev (e # entries)) k of
              Some ty \<Rightarrow> recognized ty
            | None \<Rightarrow> map_of (own_fields zodSchema) k)"
      using obj(3) by (auto simp: e z update_conv' map_add_def split: option.splits)
  qed
  from run obj(2) fields show ?case by blast
qed

lemma assign_field_no_proto_key:
  assumes "assign_field inherited key v obj = Inr obj'"
    and "''__proto__'' \<notin> fst ` set (own_fields obj)"
  shows "''__proto__'' \<notin> fst ` set (own_fields obj')"
proof (cases "key = ''__proto__''")
  case True
  with assms show ?thesis by (auto simp: assign_field_def split: if_splits)
next
  case False
  have "fst ` set (AList.update key v (own_fields obj)) = insert key (fst ` set (own_fields obj))"
    using dom_update [of key v "own_fields obj"] by (simp add: dom_map_of_conv_image_fst)
  with False assms(2) have "''__proto__'' \<notin> fst ` set (AList.update key v (own_fields obj))"
    by simp
  with assms show ?thesis
    by (auto simp: assign_field_def split: if_splits option.splits assign_effect.splits)
qed

lemma schema_loop_no_proto_key:
  assumes "schema_loop inherited entries (zodSchema, hasValidTypes) = Inr (obj, valid)"
    and "''__proto__'' \<notin> fst ` set (own_fields zodSchema)"
  shows "''__proto__'' \<notin> fst ` set (own_fields obj)"
  using assms
proof (induction entries arbitrary: zodSchema hasValidTypes)
  case Nil
  then show ?case by simp
next
  case (Cons e entries)
  obtain key ty where e: "e = (key, ty)" by (cases e)
  show ?case
  proof (cases "recognized ty")
    case None
    with Cons.prems(1) have "schema_loop inherited entries (zodSchema, False) = Inr (obj, valid)"
      unfolding e schema_loop_step by simp
    from Cons.IH [OF this Cons.prems(2)] show ?thesis .
  next
    case (Some z)
    with Cons.prems(1) obtain z' where z': "assign_field inherited key z zodSchema = Inr z'"
      "schema_loop inherited entries (z', hasValidTypes) = Inr (obj, valid)"
      unfolding e schema_loop_step by (auto simp: and_then_def split: sum.splits)
    from assign_field_no_proto_key [OF z'(1) Cons.prems(2)]
    have "''__proto__'' \<notin> fst ` set (own_fields z')" .
    from Cons.IH [OF z'(2) this] show ?thesis .
  qed
qed

lemma zodSchemaObject_Some:
  "zodSchemaObject inherited (Some entries) = Inr (Some obj) \<longleftrightarrow>
     schema_loop inherited entries (\<lparr>own_fields = [], prototype = None\<rparr>, True) = Inr (obj, True)
     \<and> own_fields obj \<noteq> []"
  by (auto simp: zodSchemaObject_def try_catch_def and_then_def split: sum.splits if_splits)

lemma zodSchemaObject_returns: "\<exists>r. zodSchemaObject inherited schema = Inr r"
  by (auto simp: zodSchemaObject_def try_catch_def and_then_def split: sum.splits option.splits)


text \<open>
  Claim C4 says: when some fields of the schema have a recognized type and others do not, the
  unrecognized fields are ignored and the schema passed to the engine consists of the recognized
  ones, so that \<open>{"price":"number","color":"purple"}\<close> yields a schema with only \<open>price\<close>.
  The default branch of the \<open>switch\<close> clears \<open>hasValidTypes\<close>, and the schema object is built
  only under that flag: for this input no schema is passed.
\<close>

theorem zodSchemaObject_partial_counterexample:
  "recognized ''number'' = Some ZNumber \<and> recognized ''purple'' = None
   \<and> zodSchemaObject (zod_inherited example_env)
        (Some [(''price'', ''number''), (''color'', ''purple'')]) = Inr None"
  by (simp add: zodSchemaObject_def recognized_def assign_field_def and_then_def try_catch_def)


text \<open>
  C4 as amended: a single field with an unrecognized type drops the whole schema. A schema
  is passed only when every field has a recognized type; when moreover the object has at least
  one field and none is named \<open>__proto__\<close>, a schema is passed and it contains exactly the fields
  of the object, each with its type (for a key listed twice, the last entry). A field named
  \<open>__proto__\<close> never becomes a field of the schema: its assignment replaces the prototype of the
  object under construction, so \<open>{"__proto__":"string"}\<close> alone passes no schema. With no
  field, or no schema argument, no schema is passed, and building the schema never throws.
\<close>

theorem zodSchemaObject_all_or_nothing:
  "((\<exists>(key, ty) \<in> set entries. recognized ty = None) \<longrightarrow>
        zodSchemaObject inherited (Some entries) = Inr None)
   \<and> (entries \<noteq> [] \<and> (\<forall>(key, ty) \<in> set entries. recognized ty \<noteq> None)
        \<and> ''__proto__'' \<notin> fst ` set entries \<longrightarrow>
        (\<exists>zodSchema. zodSchemaObject inherited (Some entries) = Inr (Some zodSchema)
           \<and> prototype zodSchema = None
           \<and> fst ` set (own_fields zodSchema) = fst ` set entries
           \<and> (\<forall>key. map_of (own_fields zodSchema) key =
                 (case map_of (rev entries) key of None \<Rightarrow> None | Some ty \<Rightarrow> recognized ty))))
   \<and> (\<forall>zodSchema. zodSchemaObject inherited (Some entries) = Inr (Some zodSchema) \<longrightarrow>
          ''__proto__'' \<notin> fst ` set (own_fields zodSchema))
   \<and> (\<forall>ty. zodSchemaObject inherited (Some [(''__proto__'', ty)]) = Inr None)
   \<and> zodSchemaObject inherited (Some []) = Inr None
   \<and> zodSchemaObject inherited None = Inr None
   \<and> (\<exists>r. zodSchemaObject inherited schema = Inr r)"
proof (intro conjI impI allI)
  assume bad: "\<exists>(key, ty) \<in> set entries. recognized ty = None"
  obtain r where r: "zodSchemaObject inherited (Some entries) = Inr r"
    using zodSchemaObject_returns by blast
  show "zodSchemaObject inherited (Some entries) = Inr None"
  proof (cases r)
    case None
    with r show ?thesis by simp
  next
    case (Some obj)
    with r have "schema_loop inherited entries (\<lparr>own_fields = [], prototype = None\<rparr>, True) = Inr (obj, True)"
      by (simp add: zodSchemaObject_Some)
    from schema_loop_flag [OF this] have "\<forall>(key, ty) \<in> set entries. recognized ty \<noteq> None"
      by simp
    with bad show ?thesis by fastforce
  qed
next
  assume a: "entries \<noteq> [] \<and> (\<forall>(key, ty) \<in> set entries. recognized ty \<noteq> None)
        \<and> ''__proto__'' \<notin> fst ` set entries"
  let ?empty = "\<lparr>own_fields = [], prototype = None\<rparr>"
  from a have "\<exists>obj. schema_loop inherited entries (?empty, True) = Inr (obj, True)
     \<and> prototype obj = None
     \<and> (\<forall>k. map_of (own_fields obj) k =
           (case map_of (rev entries) k of
              Some ty \<Rightarrow> recognized ty
            | None \<Rightarrow> map_of (own_fields ?empty) k))"
    by (intro schema_loop_fields) simp_all
  then obtain obj where obj: "schema_loop inherited entries (?empty, True) = Inr (obj, True)"
    "prototype obj = None"
    "\<forall>k. map_of (own_fields obj) k =
           (case map_of (rev entries) k of
              Some ty \<Rightarrow> recognized ty
            | None \<Rightarrow> map_of (own_fields ?empty) k)"
    by blast
  have m: "\<forall>key. map_of (own_fields obj) key =
      (case map_of (rev entries) key of None \<Rightarrow> None | Some ty \<Rightarrow> recognized ty)"
    using obj(3) by (simp split: option.splits)
  have d: "fst ` set (own_fields obj) = fst ` set entries"
  proof -
    have "dom (map_of (own_fields obj)) = dom (map_of (rev entries))"
    proof (rule set_eqI)
      fix key
      show "key \<in> dom (map_of (own_fields obj)) \<longleftrightarrow> key \<in> dom (map_of (rev entries))"
      proof (cases "map_of (rev entries) key")
        case None
        with m show ?thesis by (auto simp: dom_def)
      next
        case (Some ty)
        then have "(key, ty) \<in> set entries" by (auto dest: map_of_SomeD)
        with a have "recognized ty \<noteq> None" by auto
        with m Some show ?thesis by (auto simp: dom_def)
      qed
    qed
    then show ?thesis by (simp add: dom_map_of_conv_image_fst)
  qed
  from a d have "own_fields obj \<noteq> []" by auto
  with obj(1) have "zodSchemaObject inherited (Some entries) = Inr (Some obj)"
    by (simp add: zodSchemaObject_Some)
  with obj(2) d m show "\<exists>zodSchema. zodSchemaObject inherited (Some entries) = Inr (Some zodSchema)
           \<and> prototype zodSchema = None
           \<and> fst ` set (own_fields zodSchema) = fst ` set entries
           \<and> (\<forall>key. map_of (own_fields zodSchema) key =
                 (case map_of (rev entries) key of None \<Rightarrow> None | Some ty \<Rightarrow> recognized ty))"
    by blast
next
  fix zodSchema
  assume "zodSchemaObject inherited (Some entries) = Inr (Some zodSchema)"
  then have "schema_loop inherited entries (\<lparr>own_fields = [], prototype = None\<rparr>, True) = Inr (zodSchema, True)"
    by (simp add: zodSchemaObject_Some)
  from schema_loop_no_proto_key [OF this] show "''__proto__'' \<notin> fst ` set (own_fields zodSchema)"
    by simp
next
  fix ty
  show "zodSchemaObject inherited (Some [(''__proto__'', ty)]) = Inr None"
    by (simp add: zodSchemaObject_def assign_field_def and_then_def try_catch_def)
next
  show "zodSchemaObject inherited (Some []) = Inr None"
    by (simp add: zodSchemaObject_def and_then_def try_catch_def)
  show "zodSchemaObject inherited None = Inr None" by (simp add: zodSchemaObject_def)
  show "\<exists>r. zodSchemaObject inherited schema = Inr r" by (rule zodSchemaObject_returns)
qed

theorem zodSchemaObject_all_or_nothing_witness:
  "recognized ''number'' = Some ZNumber \<and> recognized ''string'' = Some ZString
   \<and> recognized ''purple'' = None
   \<and> zodSchemaObject (zod_inherited example_env)
        (Some [(''price'', ''number''), (''color'', ''purple'')]) = Inr None
   \<and> zodSchemaObject (zod_inherited example_env)
        (Some [(''price'', ''number''), (''name'', ''string'')]) =
       Inr (Some \<lparr>own_fields = [(''price'', ZNumber), (''name'', ZString)], prototype = None\<rparr>)
   \<and> zodSchemaObject (zod_inherited example_env) (Some [(''__proto__'', ''string'')]) = Inr None
   \<and> zodSchemaObject (zod_inherited example_env)
        (Some [(''price'', ''number''), (''__proto__'', ''string'')]) =
       Inr (Some \<lparr>own_fields = [(''price'', ZNumber)], prototype = Some ZString\<rparr>)"
proof -
  let ?inh = "zod_inherited example_env"
  have r: "recognized ''number'' = Some ZNumber" "recognized ''string'' = Some ZString"
    "recognized ''purple'' = None"
    by (simp_all add: recognized_def)
  have bad: "\<exists>(key, ty) \<in> set [(''price'', ''number''), (''color'', ''purple'')]. recognized ty = None"
    using r by simp
  have good: "[(''price'', ''number''), (''name'', ''string'')] \<noteq> []
      \<and> (\<forall>(key, ty) \<in> set [(''price'', ''number''), (''name'', ''string'')]. recognized ty \<noteq> None)
      \<and> ''__proto__'' \<notin> fst ` set [(''price'', ''number''), (''name'', ''string'')]"
    using r by simp
  note partial = zodSchemaObject_all_or_nothing
    [of "[(''price'', ''number''), (''color'', ''purple'')]" ?inh None]
  note full = zodSchemaObject_all_or_nothing
    [of "[(''price'', ''number''), (''name'', ''string'')]" ?inh None]
  have n: "zodSchemaObject ?inh (Some [(''price'', ''number''), (''color'', ''purple'')]) = Inr None"
    using partial [THEN conjunct1] bad by (rule mp)
  have e: "\<exists>zodSchema.
      zodSchemaObject ?inh (Some [(''price'', ''number''), (''name'', ''string'')]) = Inr (Some zodSchema)
      \<and> prototype zodSchema = None
      \<and> fst ` set (own_fields zodSchema) = fst ` set [(''price'', ''number''), (''name'', ''string'')]
      \<and> (\<forall>key. map_of (own_fields zodSchema) key =
             (case map_of (rev [(''price'', ''number''), (''name'', ''string'')]) key of
                None \<Rightarrow> None | Some ty \<Rightarrow> recognized ty))"
    using full [THEN conjunct2, THEN conjunct1] good by (rule mp)
  have s: "zodSchemaObject ?inh (Some [(''price'', ''number''), (''name'', ''string'')]) =
       Inr (Some \<lparr>own_fields = [(''price'', ZNumber), (''name'', ZString)], prototype = None\<rparr>)"
    by (simp add: zodSchemaObject_def assign_field_def and_then_def try_catch_def)
  have p: "zodSchemaObject ?inh (Some [(''__proto__'', ''string'')]) = Inr None"
    using partial [THEN conjunct2, THEN conjunct2, THEN conjunct2, THEN conjunct1] by (rule spec)
  have q: "zodSchemaObject ?inh (Some [(''price'', ''number''), (''__proto__'', ''string'')]) =
       Inr (Some \<lparr>own_fields = [(''price'', ZNumber)], prototype = Some ZString\<rparr>)"
    by (simp add: zodSchemaObject_def assign_field_def and_then_def try_catch_def)
  show ?thesis
    by (intro conjI) (rule r n s p q)+
qed

section \<open>Properties of the shutdown\<close>

lemma io_catch_swallow:
  "\<exists>s'. io_catch m (\<lambda>e. io_return ()) s = (Inr (), s') \<and> s' = snd (m s)"
  by (cases "m s") (auto simp: io_catch_def io_return_def split: sum.splits)

lemma io_catch_log:
  "\<exists>s'. io_catch (io_lift outcome) (\<lambda>err. log_error (line err)) s = (Inr (), s')
        \<and> files s' = files s"
  by (cases outcome) (auto simp: io_catch_def io_lift_def log_error_def io_modify_def)

lemma close_stagehand_returns:
  "\<exists>s'. close_stagehand env s = (Inr (), s') \<and> files s' = files s"
proof (cases "stagehandInstance s")
  case False
  then show ?thesis by (simp add: close_stagehand_def io_when_def)
next
  case True
  obtain s1 where s1: "io_catch (io_lift (stagehand_close env))
        (\<lambda>err. log_error (''Error closing Stagehand: '' @ message_of err)) s = (Inr (), s1)"
      "files s1 = files s"
    using io_catch_log [of "stagehand_close env"
        "\<lambda>err. ''Error closing Stagehand: '' @ message_of err" s] by blast
  with True show ?thesis
    by (simp add: close_stagehand_def io_when_def io_bind_def io_modify_def)
qed

lemma kill_started_chrome_returns:
  "\<exists>s'. kill_started_chrome env s = (Inr (), s') \<and> files s' = files s"
proof (cases "chromeProcess s \<and> weStartedChrome s")
  case False
  then show ?thesis by (auto simp: kill_started_chrome_def io_when_def)
next
  case True
  have body: "io_bind (io_lift (kill_SIGTERM env)) (\<lambda>u.
       if exitCode_is_null env then io_lift (kill_SIGKILL env) else io_return ())
     = io_lift (case kill_SIGTERM env of Inl e \<Rightarrow> Inl e
                | Inr u \<Rightarrow> if exitCode_is_null env then kill_SIGKILL env else Inr ())"
    by (rule ext) (auto simp: io_bind_def io_lift_def io_return_def split: sum.splits)
  obtain s1 where s1: "io_catch
             (io_bind (io_lift (kill_SIGTERM env)) (\<lambda>u.
                if exitCode_is_null env then io_lift (kill_SIGKILL env) else io_return ()))
             (\<lambda>err. log_error (''Error killing Chrome: '' @ message_of err)) s = (Inr (), s1)"
      "files s1 = files s"
    unfolding body
    using io_catch_log [of _ "\<lambda>err. ''Error killing Chrome: '' @ message_of err" s] by blast
  with True show ?thesis
    by (simp add: kill_started_chrome_def io_when_def io_bind_def io_modify_def)
qed

lemma io_lift_state: "snd (io_lift outcome s) = s"
  by (simp add: io_lift_def)

lemma io_bind_lift_state:
  "(\<And>v. snd (f v s) = s) \<Longrightarrow> snd (io_bind (io_lift outcome) f s) = s"
  by (cases outcome) (simp_all add: io_bind_def io_lift_def)

lemma readFileSync_state: "snd (readFileSync path s) = s"
  by (simp add: readFileSync_def split: option.splits node.splits)

lemma io_bind_read_state:
  "(\<And>v. snd (f v s) = s) \<Longrightarrow> snd (io_bind (readFileSync path) f s) = s"
  by (simp add: io_bind_def readFileSync_def split: option.splits node.splits)

lemma io_catch_swallow_state:
  "snd (m s) = s \<Longrightarrow> snd (io_catch m (\<lambda>e. io_return ()) s) = s"
  using io_catch_swallow [of m s] by auto

lemma io_return_state: "snd (io_return v s) = s"
  by (simp add: io_return_def)

lemma force_kill_via_pid_state: "snd (force_kill_via_pid env s) = s"
  unfolding force_kill_via_pid_def
  by (intro io_bind_lift_state io_bind_read_state io_catch_swallow_state)
     (auto intro!: io_bind_lift_state io_bind_read_state io_catch_swallow_state
           simp: io_return_state io_lift_state)

lemma cdp_shutdown_state: "snd (cdp_shutdown env s) = s"
  unfolding cdp_shutdown_def
  by (intro io_bind_lift_state)
     (auto intro!: io_bind_lift_state io_catch_swallow_state
           simp: io_return_state io_lift_state force_kill_via_pid_state)

lemma remove_pid_file_effect:
  "\<exists>s'. remove_pid_file s = (Inr (), s')
     \<and> (\<forall>path. path \<noteq> pidFilePath \<longrightarrow> files s' path = files s path)
     \<and> (\<forall>text. files s pidFilePath = Some (File text) \<longrightarrow> files s' pidFilePath = None)
     \<and> (files s pidFilePath = None \<or> files s pidFilePath = Some Dir \<longrightarrow> s' = s)"
  by (auto simp: remove_pid_file_def io_when_def existsSync_def io_catch_def unlinkSync_def
        io_return_def split: option.splits node.splits)

lemma closeBrowser_effect:
  "\<exists>s'. closeBrowser env s = (Inr (), s')
     \<and> (\<forall>path. path \<noteq> pidFilePath \<longrightarrow> files s' path = files s path)
     \<and> (\<forall>text. files s pidFilePath = Some (File text) \<longrightarrow> files s' pidFilePath = None)"
proof -
  obtain s1 where s1: "close_stagehand env s = (Inr (), s1)" "files s1 = files s"
    using close_stagehand_returns by blast
  obtain s2 where s2: "kill_started_chrome env s1 = (Inr (), s2)" "files s2 = files s1"
    using kill_started_chrome_returns by blast
  obtain s3 where s3: "io_catch (cdp_shutdown env) (\<lambda>e. io_return ()) s2 = (Inr (), s3)"
      "s3 = snd (cdp_shutdown env s2)"
    using io_catch_swallow by blast
  then have s32: "s3 = s2" by (simp add: cdp_shutdown_state)
  obtain s4 where s4: "remove_pid_file s2 = (Inr (), s4)"
      "\<forall>path. path \<noteq> pidFilePath \<longrightarrow> files s4 path = files s2 path"
      "\<forall>text. files s2 pidFilePath = Some (File text) \<longrightarrow> files s4 pidFilePath = None"
    using remove_pid_file_effect by blast
  have "closeBrowser env s = (Inr (), s4)"
    using s1 s2 s3 s32 s4(1) by (simp add: closeBrowser_def io_bind_def io_finally_def)
  with s1(2) s2(2) s4(2,3) show ?thesis by simp
qed


text \<open>
  Claim C5: \<open>closeBrowser\<close> never throws past its boundary. Whatever the outcome of the
  engine's \<open>close\<close>, of the signals, of the CDP probes, of the throwaway connection, of reading and
  parsing the PID record, of \<open>ps\<close> and of \<open>process.kill\<close>, and in every state, it returns normally.
\<close>

theorem closeBrowser_never_throws: "\<exists>s'. closeBrowser env s = (Inr (), s')"
  using closeBrowser_effect by blast

lemma remove_port_file_effect:
  "\<exists>s'. io_when (existsSync CDP_PORT_FILE) (io_catch (unlinkSync CDP_PORT_FILE) (\<lambda>e. io_return ())) s
          = (Inr (), s')
     \<and> (\<forall>path. path \<noteq> CDP_PORT_FILE \<longrightarrow> files s' path = files s path)
     \<and> (\<forall>text. files s CDP_PORT_FILE = Some (File text) \<longrightarrow> files s' CDP_PORT_FILE = None)"
  by (auto simp: io_when_def existsSync_def io_catch_def unlinkSync_def
        io_return_def split: option.splits node.splits)

lemma port_pid_distinct: "CDP_PORT_FILE \<noteq> pidFilePath"
  by (simp add: CDP_PORT_FILE_def pidFilePath_def)


text \<open>
  Claim C6: the \<open>close\<close> command always deletes the port file and the PID record file when they
  exist, and never deletes the persistent profile directory; its result is
  \<open>{success: true, message: "Browser closed (profile preserved)"}\<close>. In every environment and
  state: a port file and a PID file that exist are gone afterwards, every other path, the profile
  directory and all in it included, is as before, and \<open>main\<close> exits with 0 and that result.
\<close>

theorem close_case_removes_port_and_pid:
  "\<exists>s'. close_case env s = (Inr closed_result, s')
     \<and> (\<forall>text. files s CDP_PORT_FILE = Some (File text) \<longrightarrow> files s' CDP_PORT_FILE = None)
     \<and> (\<forall>text. files s pidFilePath = Some (File text) \<longrightarrow> files s' pidFilePath = None)
     \<and> (\<forall>path. path \<noteq> CDP_PORT_FILE \<and> path \<noteq> pidFilePath \<longrightarrow> files s' path = files s path)
     \<and> (\<forall>s0. prepareChromeProfile env s0 = (Inr (), s) \<longrightarrow>
            main env [''close''] s0 = (Exit 0 closed_result, s'))"
proof -
  obtain s1 where s1: "closeBrowser env s = (Inr (), s1)"
      "\<forall>path. path \<noteq> pidFilePath \<longrightarrow> files s1 path = files s path"
      "\<forall>text. files s pidFilePath = Some (File text) \<longrightarrow> files s1 pidFilePath = None"
    using closeBrowser_effect by blast
  obtain s2 where s2:
      "io_when (existsSync CDP_PORT_FILE) (io_catch (unlinkSync CDP_PORT_FILE) (\<lambda>e. io_return ())) s1
          = (Inr (), s2)"
      "\<forall>path. path \<noteq> CDP_PORT_FILE \<longrightarrow> files s2 path = files s1 path"
      "\<forall>text. files s1 CDP_PORT_FILE = Some (File text) \<longrightarrow> files s2 CDP_PORT_FILE = None"
    using remove_port_file_effect by blast
  have c: "close_case env s = (Inr closed_result, s2)"
    using s1(1) s2(1) by (simp add: close_case_def io_bind_def io_return_def closed_result_def)
  have port: "\<forall>text. files s CDP_PORT_FILE = Some (File text) \<longrightarrow> files s2 CDP_PORT_FILE = None"
    using s1(2) s2(3) port_pid_distinct by auto
  have pid: "\<forall>text. files s pidFilePath = Some (File text) \<longrightarrow> files s2 pidFilePath = None"
    using s1(3) s2(2) port_pid_distinct by (metis)
  have frame: "\<forall>path. path \<noteq> CDP_PORT_FILE \<and> path \<noteq> pidFilePath \<longrightarrow> files s2 path = files s path"
    using s1(2) s2(2) by simp
  have m: "\<forall>s0. prepareChromeProfile env s0 = (Inr (), s) \<longrightarrow>
            main env [''close''] s0 = (Exit 0 closed_result, s2)"
    using c by (simp add: main_def main_switch_def)
  from c port pid frame m show ?thesis by blast
qed

lemma example_close_run:
  "close_case example_env example_state =
     (Inr closed_result,
      \<lparr>stagehandInstance = False, currentPage = False, chromeProcess = False, weStartedChrome = False,
       files = [persistentProfileDir \<mapsto> Dir],
       console_error = [''Error closing Stagehand: Target closed'', ''Error killing Chrome: kill EPERM'']\<rparr>)"
  apply (simp add: close_case_def closeBrowser_def close_stagehand_def kill_started_chrome_def
      cdp_shutdown_def force_kill_via_pid_def remove_pid_file_def example_env_def example_state_def
      io_bind_def io_catch_def io_finally_def io_when_def io_lift_def io_return_def io_modify_def
      log_error_def existsSync_def unlinkSync_def readFileSync_def closed_result_def
      CDP_PORT_FILE_def pidFilePath_def persistentProfileDir_def)
  done

theorem close_case_removes_port_and_pid_witness:
  "files example_state CDP_PORT_FILE = Some (File ''41000'')
   \<and> files example_state pidFilePath = Some (File ''{\"pid\":4242,\"startTime\":1767225600000}'')
   \<and> files example_state persistentProfileDir = Some Dir
   \<and> prepareChromeProfile example_env example_state = (Inr (), example_state)
   \<and> fst (close_case example_env example_state) = Inr closed_result
   \<and> files (snd (close_case example_env example_state)) CDP_PORT_FILE = None
   \<and> files (snd (close_case example_env example_state)) pidFilePath = None
   \<and> files (snd (close_case example_env example_state)) persistentProfileDir = Some Dir
   \<and> fst (main example_env [''close''] example_state) = Exit 0 closed_result"
proof -
  have f1: "files example_state CDP_PORT_FILE = Some (File ''41000'')"
    by (simp add: example_state_def CDP_PORT_FILE_def pidFilePath_def persistentProfileDir_def)
  have f2: "files example_state pidFilePath = Some (File ''{\"pid\":4242,\"startTime\":1767225600000}'')"
    by (simp add: example_state_def CDP_PORT_FILE_def pidFilePath_def persistentProfileDir_def)
  have f3: "files example_state persistentProfileDir = Some Dir"
    by (simp add: example_state_def CDP_PORT_FILE_def pidFilePath_def persistentProfileDir_def)
  have d: "persistentProfileDir \<noteq> CDP_PORT_FILE \<and> persistentProfileDir \<noteq> pidFilePath"
    by (simp add: CDP_PORT_FILE_def pidFilePath_def persistentProfileDir_def)
  have p: "prepareChromeProfile example_env example_state = (Inr (), example_state)"
    by (simp add: example_env_def io_return_def)
  from close_case_removes_port_and_pid [of example_env example_state]
  obtain s' where s': "close_case example_env example_state = (Inr closed_result, s')"
    "\<forall>text. files example_state CDP_PORT_FILE = Some (File text) \<longrightarrow> files s' CDP_PORT_FILE = None"
    "\<forall>text. files example_state pidFilePath = Some (File text) \<longrightarrow> files s' pidFilePath = None"
    "\<forall>path. path \<noteq> CDP_PORT_FILE \<and> path \<noteq> pidFilePath \<longrightarrow> files s' path = files example_state path"
    "\<forall>s0. prepareChromeProfile example_env s0 = (Inr (), example_state) \<longrightarrow>
        main example_env [''close''] s0 = (Exit 0 closed_result, s')"
    by blast
  from s'(2) f1 have "files s' CDP_PORT_FILE = None" by blast
  moreover from s'(3) f2 have "files s' pidFilePath = None" by blast
  moreover from s'(4) d f3 have "files s' persistentProfileDir = Some Dir" by simp
  moreover from s'(5) p have "main example_env [''close''] example_state = (Exit 0 closed_result, s')" by blast
  ultimately show ?thesis using s'(1) f1 f2 f3 p by simp
qed

lemma close_case_removes_port_file:
  "\<exists>s'. close_case env s = (Inr closed_result, s')
     \<and> (\<forall>text. files s CDP_PORT_FILE = Some (File text) \<longrightarrow> files s' CDP_PORT_FILE = None)"
proof -
  obtain s1 where s1: "closeBrowser env s = (Inr (), s1)"
      "\<forall>path. path \<noteq> pidFilePath \<longrightarrow> files s1 path = files s path"
    using closeBrowser_effect by blast
  obtain s2 where s2:
      "io_when (existsSync CDP_PORT_FILE) (io_catch (unlinkSync CDP_PORT_FILE) (\<lambda>e. io_return ())) s1
          = (Inr (), s2)"
      "\<forall>text. files s1 CDP_PORT_FILE = Some (File text) \<longrightarrow> files s2 CDP_PORT_FILE = None"
    using remove_port_file_effect by blast
  have "close_case env s = (Inr closed_result, s2)"
    using s1(1) s2(1) by (simp add: close_case_def io_bind_def io_return_def closed_result_def)
  moreover have "\<forall>text. files s CDP_PORT_FILE = Some (File text) \<longrightarrow> files s2 CDP_PORT_FILE = None"
    using s1(2) s2(2) port_pid_distinct by auto
  ultimately show ?thesis by blast
qed


section \<open>Properties of the port resolution\<close>

lemma digit_cases:
  "d < 10 \<Longrightarrow> d = 0 \<or> d = 1 \<or> d = 2 \<or> d = 3 \<or> d = 4 \<or> d = 5 \<or> d = 6 \<or> d = 7 \<or> d = 8 \<or> d = (9::nat)"
  by arith

lemma is_digit_digit_char: "d < 10 \<Longrightarrow> is_digit (digit_char d)"
  by (drule digit_cases) (auto simp: is_digit_def digit_char_def)

lemma digit_value_digit_char: "d < 10 \<Longrightarrow> digit_value (digit_char d) = int d"
  by (drule digit_cases) (auto simp: digit_value_def digit_char_def)

lemma digits_all_digit: "\<forall>c \<in> set (digits n). is_digit c"
proof (induction n rule: digits.induct)
  case (1 n)
  show ?case
  proof (cases "n < 10")
    case True
    then show ?thesis by (subst digits.simps) (simp add: is_digit_digit_char)
  next
    case False
    with 1 show ?thesis by (subst digits.simps) (simp add: is_digit_digit_char)
  qed
qed

lemma digits_nonempty: "digits n \<noteq> []"
  by (subst digits.simps) simp

lemma parse_digits_snoc: "parse_digits (ds @ [c]) = 10 * parse_digits ds + digit_value c"
  by (simp add: parse_digits_def)

lemma parse_digits_digits: "parse_digits (digits n) = int n"
proof (induction n rule: digits.induct)
  case (1 n)
  show ?case
  proof (cases "n < 10")
    case True
    then show ?thesis
      by (subst digits.simps) (simp add: parse_digits_def digit_value_digit_char)
  next
    case False
    then have "parse_digits (digits n) = 10 * parse_digits (digits (n div 10)) + digit_value (digit_char (n mod 10))"
      by (subst digits.simps) (simp add: parse_digits_snoc)
    also have "\<dots> = 10 * int (n div 10) + int (n mod 10)"
      using 1 False by (simp add: digit_value_digit_char)
    also have "\<dots> = int n" by presburger
    finally show ?thesis .
  qed
qed

lemma is_digit_not_space: "is_digit c \<Longrightarrow> \<not> is_space c"
  by (auto simp: is_digit_def is_space_def)

lemma is_digit_not_sign: "is_digit c \<Longrightarrow> c \<noteq> CHR ''-'' \<and> c \<noteq> CHR ''+''"
  by (auto simp: is_digit_def)

lemma dropWhile_none: "\<forall>c \<in> set ds. \<not> P c \<Longrightarrow> dropWhile P ds = ds"
  by (cases ds) auto

lemma trim_digits: "\<forall>c \<in> set ds. is_digit c \<Longrightarrow> trim ds = ds"
  by (simp add: trim_def dropWhile_none is_digit_not_space)

lemma parseInt_digits:
  assumes "\<forall>c \<in> set ds. is_digit c" and "ds \<noteq> []"
  shows "parseInt ds = Some (parse_digits ds)"
proof -
  from assms obtain c cs where ds: "ds = c # cs" by (cases ds) auto
  with assms have c: "is_digit c" by simp
  have d: "dropWhile is_space ds = ds"
    using assms(1) by (simp add: dropWhile_none is_digit_not_space)
  have t: "takeWhile is_digit ds = ds" using assms(1) by simp
  have n: "\<not> startsWith ds ''-''" "\<not> startsWith ds ''+''"
    using is_digit_not_sign [OF c] by (auto simp: startsWith_def ds)
  show ?thesis by (simp add: parseInt_def Let_def d t n assms(2))
qed

lemma parseInt_String_of: "0 \<le> n \<Longrightarrow> parseInt (trim (String_of n)) = Some n"
  by (simp add: String_of_def trim_digits digits_all_digit parseInt_digits digits_nonempty
        parse_digits_digits)

lemma getRandomCdpPort_range:
  assumes "0 \<le> r" and "r < 1"
  shows "10000 \<le> getRandomCdpPort r \<and> getRandomCdpPort r < 65000"
proof -
  have "0 \<le> r * 55000" using assms by simp
  then have lo: "0 \<le> \<lfloor>r * 55000\<rfloor>" by simp
  have "r * 55000 < 55000" using assms by simp
  then have hi: "\<lfloor>r * 55000\<rfloor> < 55000" by (simp add: floor_less_iff)
  from lo hi show ?thesis by (simp add: getRandomCdpPort_def)
qed

lemma getCdpPort_reads_saved:
  assumes "files s CDP_PORT_FILE = Some (File text)"
    and "parseInt (trim text) = Some p" and "0 < p"
  shows "getCdpPort r s = (Inr p, s)"
  using assms
  by (simp add: getCdpPort_def read_saved_port_def existsSync_def readFileSync_def
        io_bind_def io_catch_def io_return_def)

lemma read_saved_port_outcome:
  "read_saved_port s =
     (Inr (case files s CDP_PORT_FILE of
             Some (File text) \<Rightarrow>
               (case parseInt (trim text) of None \<Rightarrow> None
                | Some saved \<Rightarrow> if 0 < saved then Some saved else None)
           | _ \<Rightarrow> None), s)"
  by (simp add: read_saved_port_def readFileSync_def io_bind_def io_catch_def io_return_def
        split: option.splits node.splits)

lemma getCdpPort_outcome:
  assumes "getCdpPort r s = (Inr p, s1)"
  shows "(\<exists>text. files s CDP_PORT_FILE = Some (File text) \<and> parseInt (trim text) = Some p
            \<and> 0 < p \<and> s1 = s)
       \<or> (p = getRandomCdpPort r
            \<and> s1 = s\<lparr>files := (files s)(CDP_PORT_FILE \<mapsto> File (String_of p))\<rparr>)"
proof -
  define found where "found = (if existsSync CDP_PORT_FILE s
      then (case files s CDP_PORT_FILE of
             Some (File text) \<Rightarrow>
               (case parseInt (trim text) of None \<Rightarrow> None
                | Some saved \<Rightarrow> if 0 < saved then Some saved else None)
           | _ \<Rightarrow> None) else None)"
  have unfolded_call: "getCdpPort r s =
      (case found of
         Some saved \<Rightarrow> (Inr saved, s)
       | None \<Rightarrow> io_bind (writeFileSync CDP_PORT_FILE (String_of (getRandomCdpPort r)))
                   (\<lambda>u. io_return (getRandomCdpPort r)) s)"
    by (cases \<open>existsSync CDP_PORT_FILE s\<close>)
       (simp_all add: getCdpPort_def read_saved_port_outcome io_bind_def io_return_def found_def
          Let_def split: option.splits)
  show ?thesis
  proof (cases found)
    case (Some saved)
    with unfolded_call assms have ps: "saved = p" "s1 = s" by simp_all
    from Some obtain body where "files s CDP_PORT_FILE = Some (File body)"
        "parseInt (trim body) = Some saved" "0 < saved"
      by (auto simp: found_def split: if_splits option.splits node.splits)
    with ps show ?thesis by blast
  next
    case None
    with unfolded_call assms have w: "io_bind (writeFileSync CDP_PORT_FILE (String_of (getRandomCdpPort r)))
                   (\<lambda>u. io_return (getRandomCdpPort r)) s = (Inr p, s1)" by simp
    then have "p = getRandomCdpPort r
        \<and> s1 = s\<lparr>files := (files s)(CDP_PORT_FILE \<mapsto> File (String_of (getRandomCdpPort r)))\<rparr>"
      by (auto simp: io_bind_def io_return_def writeFileSync_def split: option.splits node.splits)
    then show ?thesis by simp
  qed
qed

lemma getCdpPort_fresh:
  assumes "files s CDP_PORT_FILE = None"
  shows "getCdpPort r s =
     (Inr (getRandomCdpPort r),
      s\<lparr>files := (files s)(CDP_PORT_FILE \<mapsto> File (String_of (getRandomCdpPort r)))\<rparr>)"
  using assms
  by (simp add: getCdpPort_def existsSync_def writeFileSync_def io_bind_def io_return_def Let_def)


text \<open>
  Claim C9: port resolution is idempotent without an intervening close. If a call of
  \<open>getCdpPort\<close> returns \<open>p\<close>, by reading the port file or by drawing a port and writing it,
  then the port file exists afterwards, and every later call made while that file is still
  there as it was left returns \<open>p\<close> and changes nothing, whatever the rest of the state has
  become and whatever \<open>Math.random()\<close> would give; so do all calls after it. After \<open>close\<close>
  the file is gone and the next call returns the port of its own draw, which can differ from
  \<open>p\<close>.
\<close>

theorem getCdpPort_idempotent:
  assumes "0 \<le> r" and "r < 1" and "getCdpPort r s = (Inr p, s1)"
  shows "existsSync CDP_PORT_FILE s1
       \<and> (\<forall>r' s'. files s' CDP_PORT_FILE = files s1 CDP_PORT_FILE \<longrightarrow>
             getCdpPort r' s' = (Inr p, s'))
       \<and> getCdpPort r' s1 = (Inr p, s1)
       \<and> (\<forall>env res s2. close_case env s1 = (res, s2) \<longrightarrow>
             \<not> existsSync CDP_PORT_FILE s2
             \<and> fst (getCdpPort r' s2) = Inr (getRandomCdpPort r'))
       \<and> (\<exists>r''. 0 \<le> r'' \<and> r'' < 1 \<and> getRandomCdpPort r'' \<noteq> p)"
proof -
  have saved_file: "\<exists>body. files s1 CDP_PORT_FILE = Some (File body) \<and> parseInt (trim body) = Some p \<and> 0 < p"
    using getCdpPort_outcome [OF assms(3)]
  proof
    assume "\<exists>text. files s CDP_PORT_FILE = Some (File text) \<and> parseInt (trim text) = Some p
            \<and> 0 < p \<and> s1 = s"
    then show ?thesis by auto
  next
    assume fresh: "p = getRandomCdpPort r
            \<and> s1 = s\<lparr>files := (files s)(CDP_PORT_FILE \<mapsto> File (String_of p))\<rparr>"
    with getRandomCdpPort_range [OF assms(1,2)] have "0 < p" by simp
    then have "parseInt (trim (String_of p)) = Some p" by (simp add: parseInt_String_of)
    with fresh \<open>0 < p\<close> show ?thesis by simp
  qed
  then obtain body where body: "files s1 CDP_PORT_FILE = Some (File body)"
      "parseInt (trim body) = Some p" "0 < p" by blast
  have later: "\<forall>r' s'. files s' CDP_PORT_FILE = files s1 CDP_PORT_FILE \<longrightarrow>
             getCdpPort r' s' = (Inr p, s')"
  proof (intro allI impI)
    fix r' :: real and s' :: state
    assume "files s' CDP_PORT_FILE = files s1 CDP_PORT_FILE"
    with body(1) have "files s' CDP_PORT_FILE = Some (File body)" by simp
    then show "getCdpPort r' s' = (Inr p, s')"
      using body(2,3) by (rule getCdpPort_reads_saved)
  qed
  then have again: "getCdpPort r' s1 = (Inr p, s1)" by simp
  have ex: "existsSync CDP_PORT_FILE s1" using body(1) by (simp add: existsSync_def)
  have closed: "\<forall>env res s2. close_case env s1 = (res, s2) \<longrightarrow>
             \<not> existsSync CDP_PORT_FILE s2 \<and> fst (getCdpPort r' s2) = Inr (getRandomCdpPort r')"
  proof (intro allI impI)
    fix env res s2 assume c: "close_case env s1 = (res, s2)"
    from close_case_removes_port_file [of env s1] c body(1)
    have gone: "files s2 CDP_PORT_FILE = None" by auto
    then show "\<not> existsSync CDP_PORT_FILE s2 \<and> fst (getCdpPort r' s2) = Inr (getRandomCdpPort r')"
      by (simp add: existsSync_def getCdpPort_fresh)
  qed
  have "getRandomCdpPort 0 = 10000" "getRandomCdpPort (1/2) = 37500"
    by (simp_all add: getRandomCdpPort_def)
  then have diff: "\<exists>r''. 0 \<le> r'' \<and> r'' < 1 \<and> getRandomCdpPort r'' \<noteq> p"
    by (cases "p = 10000") (force intro: exI[of _ "1/2"], force intro: exI[of _ 0])
  from ex later again closed diff show ?thesis by blast
qed

theorem getCdpPort_idempotent_witness:
  "(0::real) \<le> 1/4 \<and> (1/4::real) < 1
   \<and> files fresh_state CDP_PORT_FILE = None
   \<and> getCdpPort (1/4) fresh_state =
       (Inr 23750, fresh_state\<lparr>files := (files fresh_state)(CDP_PORT_FILE \<mapsto> File (String_of 23750))\<rparr>)
   \<and> String_of 23750 = ''23750''
   \<and> getCdpPort (3/4)
        (fresh_state\<lparr>files := (files fresh_state)(CDP_PORT_FILE \<mapsto> File (String_of 23750))\<rparr>) =
       (Inr 23750, fresh_state\<lparr>files := (files fresh_state)(CDP_PORT_FILE \<mapsto> File (String_of 23750))\<rparr>)
   \<and> files later_state CDP_PORT_FILE = Some (File ''23750'')
   \<and> files later_state ''agent/downloads'' = Some Dir
   \<and> getCdpPort (3/4) later_state = (Inr 23750, later_state)"
proof -
  let ?s1 = "fresh_state\<lparr>files := (files fresh_state)(CDP_PORT_FILE \<mapsto> File (String_of 23750))\<rparr>"
  have n: "files fresh_state CDP_PORT_FILE = None"
    by (simp add: fresh_state_def CDP_PORT_FILE_def persistentProfileDir_def)
  have p: "getRandomCdpPort (1/4) = 23750" by (simp add: getRandomCdpPort_def)
  have g: "getCdpPort (1/4) fresh_state = (Inr 23750, ?s1)"
    using getCdpPort_fresh [OF n, of "1/4"] by (simp add: p)
  have t: "String_of 23750 = ''23750''"
    by (simp add: String_of_def digits.simps digit_char_def)
  have r: "(0::real) \<le> 1/4" "(1/4::real) < 1" by simp_all
  have l: "files later_state CDP_PORT_FILE = Some (File ''23750'')"
    by (simp add: later_state_def CDP_PORT_FILE_def pidFilePath_def persistentProfileDir_def)
  have d: "files later_state ''agent/downloads'' = Some Dir"
    by (simp add: later_state_def CDP_PORT_FILE_def pidFilePath_def persistentProfileDir_def)
  have same: "files later_state CDP_PORT_FILE = files ?s1 CDP_PORT_FILE"
    by (simp add: l t)
  note idem = getCdpPort_idempotent [OF r g, of "3/4"]
  have a: "getCdpPort (3/4) ?s1 = (Inr 23750, ?s1)"
    using idem [THEN conjunct2, THEN conjunct2, THEN conjunct1] .
  have b: "getCdpPort (3/4) later_state = (Inr 23750, later_state)"
    using idem [THEN conjunct2, THEN conjunct1, rule_format, OF same] .
  show ?thesis
    by (intro conjI) (rule r n g t a l d b)+
qed

end
